theory Spec2Isabelle
  imports Main "HOL-Library.Word"
begin

unbundle bit_operations_syntax

section \<open>The emissions circuit (main.go, AppCircuit)\<close>

subsection \<open>Data\<close>

text \<open>
  \<^verbatim>\<open>type AppCircuit struct { EmissionsData *big.Int }\<close>.
  A \<^verbatim>\<open>big.Int\<close> is an unbounded signed integer.
\<close>

record AppCircuit =
  EmissionsData :: int

type_synonym Uint248 = "248 word"
type_synonym Bytes32 = "256 word"

text \<open>
  Modelled from the spec: the types \<^verbatim>\<open>sdk.StorageSlot\<close>, \<^verbatim>\<open>sdk.DataInput\<close> and
  \<^verbatim>\<open>sdk.CircuitAPI\<close> are declared in the proving SDK, not in this repository. Section 3
  describes a storage slot as a record with at least a value field, an unsigned integer
  read from chain storage; the only field \<^verbatim>\<open>Define\<close> touches is \<^verbatim>\<open>Value\<close>, a 32-byte
  word. The record is extensible, so a slot may carry more fields. Of the data input,
  \<^verbatim>\<open>Define\<close> reads the storage slots only (the allocation gives no room to receipts
  and transactions).
\<close>

record StorageSlot =
  Value :: Bytes32

record DataInput =
  StorageSlots :: "StorageSlot list"

text \<open>
  Modelled from the spec: a circuit is a set of constraints whose satisfying assignment
  can be proven, and a witness is the assignment of values to its inputs and wires
  (glossary). The circuit API is the constraint system under construction, evaluated on the
  concrete assignment given by the input: every assertion recorded so far with its truth
  value at that assignment, and the public outputs declared so far (bit size and value).
  The assignment of all internal wires is determined by the input, so the input has a
  satisfying assignment exactly when every recorded assertion is true.
\<close>

record CircuitAPI =
  constraints :: "bool list"
  outputs :: "(nat \<times> Uint248) list"

definition newCircuitAPI :: CircuitAPI where
  "newCircuitAPI = \<lparr>constraints = [], outputs = []\<rparr>"

definition satisfied :: "CircuitAPI \<Rightarrow> bool" where
  "satisfied api = list_all (\<lambda>b. b) (constraints api)"

definition assertIsTrue :: "bool \<Rightarrow> CircuitAPI \<Rightarrow> CircuitAPI" where
  "assertIsTrue b api = api\<lparr>constraints := constraints api @ [b]\<rparr>"

subsection \<open>Library operations the circuit calls\<close>

text \<open>
  Modelled from the spec: \<^verbatim>\<open>big.Int.Uint64\<close> belongs to Go's standard library
  (\<^verbatim>\<open>math/big\<close>), not to this repository. It is the \<^verbatim>\<open>uint64\<close> representation of the
  number: the number itself from 0 up to \<open>2 ^ 64 - 1\<close>, and in general the low 64 bits
  of its magnitude.
\<close>

definition Uint64 :: "int \<Rightarrow> 64 word" where
  "Uint64 x = word_of_int \<bar>x\<bar>"

text \<open>
  Modelled from the spec: the proving SDK (\<^verbatim>\<open>sdk.ConstUint248\<close>, \<^verbatim>\<open>api.ToUint248\<close>,
  \<^verbatim>\<open>api.Uint248.IsEqual\<close>, \<^verbatim>\<open>sdk.NewDataStream\<close>, \<^verbatim>\<open>sdk.AssertEach\<close>, \<^verbatim>\<open>sdk.Map\<close>,
  \<^verbatim>\<open>sdk.Sum\<close>, \<^verbatim>\<open>api.OutputUint\<close>) is an external collaborator whose source is not part
  of this repository. Section 4.1 of the specification fixes what they do here: a stream
  is the sequence of the supplied slots; each slot is mapped to its numeric value; the
  assertion is a hard constraint on every slot; the sum of the values is declared as a
  public output of 248 bits.

  \<^verbatim>\<open>ConstUint248\<close> widens a 64-bit constant to a 248-bit value.
\<close>

definition ConstUint248 :: "64 word \<Rightarrow> Uint248" where
  "ConstUint248 x = ucast x"

text \<open>
  \<^verbatim>\<open>ToUint248\<close> reads a 32-byte value as a 248-bit number. A 32-byte value is such
  a number only when its top 8 bits are zero, which the cast records as a constraint;
  the result is the low 248 bits.
\<close>

definition ToUint248 :: "Bytes32 \<Rightarrow> CircuitAPI \<Rightarrow> Uint248 \<times> CircuitAPI" where
  "ToUint248 v api = (ucast v, assertIsTrue (drop_bit 248 v = 0) api)"

text \<open>\<^verbatim>\<open>IsEqual\<close> yields the circuit's boolean: 1 for equal, 0 otherwise.\<close>

definition IsEqual :: "Uint248 \<Rightarrow> Uint248 \<Rightarrow> Uint248" where
  "IsEqual a b = (if a = b then 1 else 0)"

definition NewDataStream :: "CircuitAPI \<Rightarrow> 'a list \<Rightarrow> 'a list" where
  "NewDataStream api xs = xs"

text \<open>
  \<^verbatim>\<open>AssertEach\<close> runs the assertion function on every element of the stream, in order,
  and constrains each result to be 1. The function may itself record constraints, so the
  API is threaded through.
\<close>

fun AssertEach ::
  "'a list \<Rightarrow> ('a \<Rightarrow> CircuitAPI \<Rightarrow> Uint248 \<times> CircuitAPI) \<Rightarrow> CircuitAPI \<Rightarrow> CircuitAPI" where
  "AssertEach [] f api = api"
| "AssertEach (x # xs) f api =
     (case f x api of (r, api') \<Rightarrow> AssertEach xs f (assertIsTrue (r = 1) api'))"

text \<open>\<^verbatim>\<open>Map\<close> applies the function to every element of the stream, in order.\<close>

fun Map_stream ::
  "'a list \<Rightarrow> ('a \<Rightarrow> CircuitAPI \<Rightarrow> 'b \<times> CircuitAPI) \<Rightarrow> CircuitAPI \<Rightarrow> 'b list \<times> CircuitAPI" where
  "Map_stream [] f api = ([], api)"
| "Map_stream (x # xs) f api =
     (case f x api of (y, api') \<Rightarrow>
        (case Map_stream xs f api' of (ys, api'') \<Rightarrow> (y # ys, api'')))"

text \<open>
  \<^verbatim>\<open>Sum\<close> adds the elements of a stream of 248-bit values, starting from 0. The sum
  of at most 32 values below \<open>2 ^ 64\<close> stays far below \<open>2 ^ 248\<close>.
\<close>

definition Sum :: "Uint248 list \<Rightarrow> Uint248" where
  "Sum xs = foldl (+) 0 xs"

text \<open>
  \<^verbatim>\<open>OutputUint\<close> declares a public output of the given bit size; the value must fit
  that many bits.
\<close>

definition OutputUint :: "nat \<Rightarrow> Uint248 \<Rightarrow> CircuitAPI \<Rightarrow> CircuitAPI" where
  "OutputUint bitSize v api =
     (assertIsTrue (unat v < 2 ^ bitSize) api)\<lparr>outputs := outputs api @ [(bitSize, v)]\<rparr>"

subsection \<open>Allocate and Define\<close>


text \<open>
  The in-circuit constant of line 34:
  \<^verbatim>\<open>expectedEmission := sdk.ConstUint248(c.EmissionsData.Uint64())\<close>.
\<close>

definition expectedEmission :: "AppCircuit \<Rightarrow> Uint248" where
  "expectedEmission c = ConstUint248 (Uint64 (EmissionsData c))"

text \<open>
  \<^verbatim>\<open>Define\<close> (main.go, lines 32 to 49). It always returns \<^verbatim>\<open>nil\<close>, here \<open>None\<close>;
  its effect is the constraint system it leaves in the API.
\<close>

definition Define :: "AppCircuit \<Rightarrow> CircuitAPI \<Rightarrow> DataInput \<Rightarrow> string option \<times> CircuitAPI" where
  "Define c api inp =
     (let slots = NewDataStream api (StorageSlots inp);
          api1 = AssertEach slots
                   (\<lambda>slot a. case ToUint248 (Value slot) a of
                                (emissionValue, a') \<Rightarrow> (IsEqual emissionValue (expectedEmission c), a'))
                   api
      in case Map_stream slots (\<lambda>slot a. ToUint248 (Value slot) a) api1 of
           (emissions, api2) \<Rightarrow>
             (let totalEmissions = Sum emissions
              in (None, OutputUint 248 totalEmissions api2)))"


section \<open>The HTTP handlers (main.go, handlePrepareDownload and handleSubmitProof)\<close>

subsection \<open>Collaborators\<close>

text \<open>
  The proving backend, the chain-RPC client and the proof network are external: the
  handlers only call them. Their values are opaque here (type variables \<open>'app\<close> for the
  \<^verbatim>\<open>BrevisApp\<close>, \<open>'wit\<close> for a witness, \<open>'prf\<close> for a proof); a circuit input is the data
  the circuit reads. A Go \<^verbatim>\<open>error\<close> is its message, the text \<^verbatim>\<open>%v\<close> prints.
\<close>

type_synonym Address = "160 word"
type_synonym Hash = "256 word"
type_synonym CircuitInput = DataInput

text \<open>
  One constructor for each collaborator operation the handlers invoke, with the arguments
  of the invocation. The \<^verbatim>\<open>nil\<close> arguments of \<^verbatim>\<open>sdk.Prove(nil, nil, witness)\<close> and of
  \<^verbatim>\<open>app.PrepareRequest(nil, witness, ..., nil, "")\<close> are left out.
\<close>

datatype ('app, 'wit, 'prf) Call =
    CallNewBrevisApp nat string string
  | CallCompile AppCircuit string string 'app
  | CallBuildCircuitInput 'app AppCircuit
  | CallNewFullWitness AppCircuit CircuitInput
  | CallProve 'wit
  | CallSubmitProof 'app 'prf
  | CallPrepareRequest 'app 'wit nat nat Address Address nat string
  | CallWaitFinalProofSubmitted 'app

text \<open>
  How the collaborators answer during one run of a handler. A handler invokes each
  operation at most once, so a function of the arguments describes any behaviour.
  \<open>Inl\<close> is the error of a call that returns a value; \<open>Some\<close> is the error of a call
  that returns only an error. \<^verbatim>\<open>PrepareRequest\<close> yields the request id and the fee (its
  two other results are discarded by the caller).
\<close>

record ('app, 'wit, 'prf) Env =
  NewBrevisApp :: "nat \<Rightarrow> string \<Rightarrow> string \<Rightarrow> string + 'app"
  Compile :: "AppCircuit \<Rightarrow> string \<Rightarrow> string \<Rightarrow> 'app \<Rightarrow> string option"
  BuildCircuitInput :: "'app \<Rightarrow> AppCircuit \<Rightarrow> string + CircuitInput"
  NewFullWitness :: "AppCircuit \<Rightarrow> CircuitInput \<Rightarrow> string + 'wit"
  Prove :: "'wit \<Rightarrow> string + 'prf"
  SubmitProof :: "'app \<Rightarrow> 'prf \<Rightarrow> string option"
  PrepareRequest ::
    "'app \<Rightarrow> 'wit \<Rightarrow> nat \<Rightarrow> nat \<Rightarrow> Address \<Rightarrow> Address \<Rightarrow> nat \<Rightarrow> string \<Rightarrow> string + (Hash \<times> int)"
  WaitFinalProofSubmitted :: "'app \<Rightarrow> string + Hash"

subsection \<open>Process state and responses\<close>

text \<open>
  The package-level variable \<^verbatim>\<open>circuitPrepared\<close>, together with what the process has
  done to the outside so far: the collaborator invocations, in order, and the lines
  written with \<^verbatim>\<open>log.Println\<close> and \<^verbatim>\<open>log.Printf\<close>.
\<close>

record ('app, 'wit, 'prf) Server =
  circuitPrepared :: bool
  calls :: "('app, 'wit, 'prf) Call list"
  logs :: "string list"

definition invoke ::
  "('app, 'wit, 'prf) Call \<Rightarrow> ('app, 'wit, 'prf, 'z) Server_scheme \<Rightarrow> ('app, 'wit, 'prf, 'z) Server_scheme" where
  "invoke c s = s\<lparr>calls := calls s @ [c]\<rparr>"

definition logPrintln ::
  "string \<Rightarrow> ('app, 'wit, 'prf, 'z) Server_scheme \<Rightarrow> ('app, 'wit, 'prf, 'z) Server_scheme" where
  "logPrintln line s = s\<lparr>logs := logs s @ [line]\<rparr>"

text \<open>
  A response body is plain text or a JSON object. \<open>HexString h\<close> stands for the string
  \<^verbatim>\<open>h.Hex()\<close>, \<open>Number n\<close> for the number \<open>n\<close>.
\<close>

datatype JValue = HexString Hash | Number int

datatype Body = Text string | Json "(string \<times> JValue) list"

record Response =
  status :: nat
  body :: Body

definition StatusOK :: nat where
  "StatusOK = 200"

definition StatusBadRequest :: nat where
  "StatusBadRequest = 400"

definition StatusInternalServerError :: nat where
  "StatusInternalServerError = 500"

text \<open>The classes of HTTP status codes: 4xx is a client error, 5xx a server error.\<close>

definition serverErrorStatus :: "nat \<Rightarrow> bool" where
  "serverErrorStatus code = (500 \<le> code \<and> code \<le> 599)"

text \<open>\<^verbatim>\<open>http.Error\<close> replies with the code and the message followed by a newline, as text.\<close>

definition httpError :: "string \<Rightarrow> nat \<Rightarrow> Response" where
  "httpError msg code = \<lparr>status = code, body = Text (msg @ [CHR 0x0A])\<rparr>"

subsection \<open>handlePrepareDownload\<close>

text \<open>
  The body of the goroutine (main.go, lines 52 to 82), run from \<^verbatim>\<open>Lock\<close> to the
  deferred \<^verbatim>\<open>Unlock\<close> without interference: the mutex is held throughout.
\<close>

definition prepareTask ::
  "('app, 'wit, 'prf) Env \<Rightarrow> ('app, 'wit, 'prf, 'z) Server_scheme \<Rightarrow> ('app, 'wit, 'prf, 'z) Server_scheme" where
  "prepareTask env s =
     (if circuitPrepared s then logPrintln ''Circuit already prepared.'' s
      else
        let rpcURL = ''https://sepolia.drpc.org'';
            outputDir = ''./brevis-output'';
            s1 = invoke (CallNewBrevisApp 11155111 rpcURL outputDir) s
        in case NewBrevisApp env 11155111 rpcURL outputDir of
             Inl err \<Rightarrow> logPrintln (''Error initializing BrevisApp: '' @ err) s1
           | Inr app \<Rightarrow>
              (let estimatedEmissions = 10000;
                   circuit = \<lparr>EmissionsData = estimatedEmissions\<rparr>;
                   outDir = ''./brevis-circuit'';
                   srsDir = ''./brevis-srs'';
                   s2 = invoke (CallCompile circuit outDir srsDir app) s1
               in case Compile env circuit outDir srsDir app of
                    Some err \<Rightarrow> logPrintln (''Error compiling circuit: '' @ err) s2
                  | None \<Rightarrow> logPrintln ''Circuit preparation complete.'' (s2\<lparr>circuitPrepared := True\<rparr>)))"

text \<open>
  \<^verbatim>\<open>handlePrepareDownload\<close> (lines 51 to 86) starts the goroutine and replies at once:
  its result is the reply and the task it has started, which runs later on the process
  state.
\<close>

definition handlePrepareDownload ::
  "('app, 'wit, 'prf) Env \<Rightarrow>
     Response \<times> (('app, 'wit, 'prf, 'z) Server_scheme \<Rightarrow> ('app, 'wit, 'prf, 'z) Server_scheme)" where
  "handlePrepareDownload env =
     (\<lparr>status = StatusOK, body = Text ''Circuit preparation started.''\<rparr>, prepareTask env)"

subsection \<open>handleSubmitProof\<close>

text \<open>
  \<^verbatim>\<open>handleSubmitProof\<close> (lines 88 to 158). The flag is read under the mutex, which
  is released before anything else happens.
\<close>

definition handleSubmitProof ::
  "('app, 'wit, 'prf) Env \<Rightarrow> ('app, 'wit, 'prf, 'z) Server_scheme \<Rightarrow>
     Response \<times> ('app, 'wit, 'prf, 'z) Server_scheme" where
  "handleSubmitProof env s =
     (let prepared = circuitPrepared s in
      if \<not> prepared
      then (httpError ''Circuit not prepared yet. Please try again later.'' StatusBadRequest, s)
      else
       (let rpcURL = ''https://sepolia.drpc.org'';
            outputDir = ''./brevis-output'';
            s1 = invoke (CallNewBrevisApp 11155111 rpcURL outputDir) s
        in case NewBrevisApp env 11155111 rpcURL outputDir of
             Inl err \<Rightarrow>
               (httpError (''Error initializing BrevisApp: '' @ err) StatusInternalServerError, s1)
           | Inr app \<Rightarrow>
       (let estimatedEmissions = 10000;
            circuit = \<lparr>EmissionsData = estimatedEmissions\<rparr>;
            s2 = invoke (CallBuildCircuitInput app circuit) s1
        in case BuildCircuitInput env app circuit of
             Inl err \<Rightarrow>
               (httpError (''Error building circuit input: '' @ err) StatusInternalServerError, s2)
           | Inr circuitInput \<Rightarrow>
       (let s3 = invoke (CallNewFullWitness circuit circuitInput) s2
        in case NewFullWitness env circuit circuitInput of
             Inl err \<Rightarrow>
               (httpError (''Error generating witness: '' @ err) StatusInternalServerError, s3)
           | Inr witness \<Rightarrow>
       (let s4 = invoke (CallProve witness) s3
        in case Prove env witness of
             Inl err \<Rightarrow>
               (httpError (''Error generating proof: '' @ err) StatusInternalServerError, s4)
           | Inr proof \<Rightarrow>
       (let s5 = invoke (CallSubmitProof app proof) s4
        in case SubmitProof env app proof of
             Some err \<Rightarrow>
               (httpError (''Error submitting proof: '' @ err) StatusInternalServerError, s5)
           | None \<Rightarrow>
       (let tokenAddress = 0xbd2F3813637Ed399D5ddBC2307D3bf4Ab1695B48;
            refundAddress = 0x788997cD5b9feAc56d4928539Dc21C637C61E69a;
            s6 = invoke (CallPrepareRequest app witness 11155111 11155111
                           refundAddress tokenAddress 500000 []) s5
        in case PrepareRequest env app witness 11155111 11155111
                  refundAddress tokenAddress 500000 [] of
             Inl err \<Rightarrow>
               (httpError (''Error preparing request: '' @ err) StatusInternalServerError, s6)
           | Inr (requestId, feeValue) \<Rightarrow>
       (let s7 = invoke (CallWaitFinalProofSubmitted app) s6
        in case WaitFinalProofSubmitted env app of
             Inl err \<Rightarrow>
               (httpError (''Error waiting for proof submission: '' @ err)
                  StatusInternalServerError, s7)
           | Inr tx \<Rightarrow>
               (\<lparr>status = StatusOK,
                 body = Json [(''request_id'', HexString requestId),
                              (''fee'', Number feeValue),
                              (''transaction'', HexString tx)]\<rparr>, s7)))))))))"

subsection \<open>Sequences of requests\<close>

text \<open>
  A request served to completion before the next one arrives: for a trigger, the task it
  starts has finished.
\<close>

datatype ('app, 'wit, 'prf) Request =
    Trigger "('app, 'wit, 'prf) Env"
  | Submit "('app, 'wit, 'prf) Env"

fun serve ::
  "('app, 'wit, 'prf) Request \<Rightarrow> ('app, 'wit, 'prf, 'z) Server_scheme \<Rightarrow> ('app, 'wit, 'prf, 'z) Server_scheme" where
  "serve (Trigger env) s = snd (handlePrepareDownload env) s"
| "serve (Submit env) s = snd (handleSubmitProof env s)"

fun serveAll ::
  "('app, 'wit, 'prf) Request list \<Rightarrow> ('app, 'wit, 'prf, 'z) Server_scheme \<Rightarrow> ('app, 'wit, 'prf, 'z) Server_scheme" where
  "serveAll [] s = s"
| "serveAll (r # rs) s = serveAll rs (serve r s)"

subsection \<open>Reading the record of invocations\<close>

fun isCompile :: "('app, 'wit, 'prf) Call \<Rightarrow> bool" where
  "isCompile (CallCompile c outDir srsDir app) = True"
| "isCompile other = False"

definition compileCalls :: "('app, 'wit, 'prf, 'z) Server_scheme \<Rightarrow> nat" where
  "compileCalls s = length (filter isCompile (calls s))"

text \<open>The error, if any, with which the collaborators answer an invocation.\<close>

fun callError :: "('app, 'wit, 'prf) Env \<Rightarrow> ('app, 'wit, 'prf) Call \<Rightarrow> string option" where
  "callError env (CallNewBrevisApp chain url dir) =
     (case NewBrevisApp env chain url dir of Inl e \<Rightarrow> Some e | Inr app \<Rightarrow> None)"
| "callError env (CallCompile c outDir srsDir app) = Compile env c outDir srsDir app"
| "callError env (CallBuildCircuitInput app c) =
     (case BuildCircuitInput env app c of Inl e \<Rightarrow> Some e | Inr i \<Rightarrow> None)"
| "callError env (CallNewFullWitness c i) =
     (case NewFullWitness env c i of Inl e \<Rightarrow> Some e | Inr w \<Rightarrow> None)"
| "callError env (CallProve w) =
     (case Prove env w of Inl e \<Rightarrow> Some e | Inr p \<Rightarrow> None)"
| "callError env (CallSubmitProof app p) = SubmitProof env app p"
| "callError env (CallPrepareRequest app w src dst refund token gas key) =
     (case PrepareRequest env app w src dst refund token gas key of Inl e \<Rightarrow> Some e | Inr r \<Rightarrow> None)"
| "callError env (CallWaitFinalProofSubmitted app) =
     (case WaitFinalProofSubmitted env app of Inl e \<Rightarrow> Some e | Inr tx \<Rightarrow> None)"

text \<open>The stages of the submission pipeline, in the order of section 4.3.\<close>

datatype Stage =
    AppConstruction | InputBuild | WitnessGeneration | ProofGeneration
  | ProofSubmission | RequestPreparation | FinalityWait | Compilation

fun stageOf :: "('app, 'wit, 'prf) Call \<Rightarrow> Stage" where
  "stageOf (CallNewBrevisApp chain url dir) = AppConstruction"
| "stageOf (CallCompile c outDir srsDir app) = Compilation"
| "stageOf (CallBuildCircuitInput app c) = InputBuild"
| "stageOf (CallNewFullWitness c i) = WitnessGeneration"
| "stageOf (CallProve w) = ProofGeneration"
| "stageOf (CallSubmitProof app p) = ProofSubmission"
| "stageOf (CallPrepareRequest app w src dst refund token gas key) = RequestPreparation"
| "stageOf (CallWaitFinalProofSubmitted app) = FinalityWait"

definition pipeline :: "Stage list" where
  "pipeline = [AppConstruction, InputBuild, WitnessGeneration, ProofGeneration,
               ProofSubmission, RequestPreparation, FinalityWait]"

text \<open>The text with which \<^verbatim>\<open>handleSubmitProof\<close> introduces the error of each stage.\<close>

fun errorText :: "Stage \<Rightarrow> string" where
  "errorText AppConstruction = ''Error initializing BrevisApp: ''"
| "errorText InputBuild = ''Error building circuit input: ''"
| "errorText WitnessGeneration = ''Error generating witness: ''"
| "errorText ProofGeneration = ''Error generating proof: ''"
| "errorText ProofSubmission = ''Error submitting proof: ''"
| "errorText RequestPreparation = ''Error preparing request: ''"
| "errorText FinalityWait = ''Error waiting for proof submission: ''"
| "errorText Compilation = ''Error compiling circuit: ''"

subsection \<open>The contract of the input build\<close>


section \<open>Concurrent triggers\<close>

text \<open>
  Every trigger starts a goroutine that runs the task of lines 52 to 82. Its atomic steps
  are the places a goroutine can be at: before \<^verbatim>\<open>Lock\<close> (line 53), holding the mutex before
  the test of the flag (line 56), before \<^verbatim>\<open>NewBrevisApp\<close> (line 63), before \<^verbatim>\<open>Compile\<close> is
  invoked (line 74), while \<^verbatim>\<open>Compile\<close> is in flight, before the deferred \<^verbatim>\<open>Unlock\<close>
  (line 54), and finished.
\<close>

datatype 'app PC =
    Waiting | Locked | Creating | Created 'app | Compiling 'app | Deferred | Finished

record ('app, 'wit, 'prf) Sys = "('app, 'wit, 'prf) Server" +
  mutex :: "nat option"
  tasks :: "('app PC \<times> ('app, 'wit, 'prf) Env) list"

definition setPC :: "nat \<Rightarrow> 'app PC \<Rightarrow> ('app, 'wit, 'prf) Sys \<Rightarrow> ('app, 'wit, 'prf) Sys" where
  "setPC i pc s = s\<lparr>tasks := (tasks s)[i := (pc, snd (tasks s ! i))]\<rparr>"

text \<open>
  One step of task \<open>i\<close>. \<open>None\<close>: the task cannot move, because another goroutine
  holds the mutex, or it has finished, or there is no such task.
\<close>

definition task_step :: "nat \<Rightarrow> ('app, 'wit, 'prf) Sys \<Rightarrow> ('app, 'wit, 'prf) Sys option" where
  "task_step i s =
     (if i < length (tasks s) then
        (case tasks s ! i of (pc, env) \<Rightarrow>
           (case pc of
              Waiting \<Rightarrow>
                (case mutex s of
                   None \<Rightarrow> Some (setPC i Locked (s\<lparr>mutex := Some i\<rparr>))
                 | Some holder \<Rightarrow> None)
            | Locked \<Rightarrow>
                (if circuitPrepared s
                 then Some (setPC i Deferred (logPrintln ''Circuit already prepared.'' s))
                 else Some (setPC i Creating s))
            | Creating \<Rightarrow>
                (let rpcURL = ''https://sepolia.drpc.org'';
                     outputDir = ''./brevis-output'';
                     s1 = invoke (CallNewBrevisApp 11155111 rpcURL outputDir) s
                 in case NewBrevisApp env 11155111 rpcURL outputDir of
                      Inl err \<Rightarrow>
                        Some (setPC i Deferred (logPrintln (''Error initializing BrevisApp: '' @ err) s1))
                    | Inr app \<Rightarrow> Some (setPC i (Created app) s1))
            | Created app \<Rightarrow>
                (let estimatedEmissions = 10000;
                     circuit = \<lparr>EmissionsData = estimatedEmissions\<rparr>;
                     outDir = ''./brevis-circuit'';
                     srsDir = ''./brevis-srs''
                 in Some (setPC i (Compiling app) (invoke (CallCompile circuit outDir srsDir app) s)))
            | Compiling app \<Rightarrow>
                (let estimatedEmissions = 10000;
                     circuit = \<lparr>EmissionsData = estimatedEmissions\<rparr>;
                     outDir = ''./brevis-circuit'';
                     srsDir = ''./brevis-srs''
                 in case Compile env circuit outDir srsDir app of
                      Some err \<Rightarrow>
                        Some (setPC i Deferred (logPrintln (''Error compiling circuit: '' @ err) s))
                    | None \<Rightarrow>
                        Some (setPC i Deferred
                                (logPrintln ''Circuit preparation complete.'' (s\<lparr>circuitPrepared := True\<rparr>))))
            | Deferred \<Rightarrow> Some (setPC i Finished (s\<lparr>mutex := None\<rparr>))
            | Finished \<Rightarrow> None))
      else None)"

text \<open>
  A schedule names, step by step, the task that is given the processor; a task that
  cannot move leaves the state as it is. Every interleaving of the goroutines is the run
  of some schedule.
\<close>

fun run :: "nat list \<Rightarrow> ('app, 'wit, 'prf) Sys \<Rightarrow> ('app, 'wit, 'prf) Sys" where
  "run [] s = s"
| "run (i # sched) s = run sched (case task_step i s of None \<Rightarrow> s | Some s' \<Rightarrow> s')"

text \<open>
  The process after N triggers have arrived and none of their goroutines has moved yet:
  the flag is false and the mutex free, as the zero values of the package variables are.
\<close>

definition start :: "('app, 'wit, 'prf) Env list \<Rightarrow> ('app, 'wit, 'prf) Sys" where
  "start envs =
     \<lparr>circuitPrepared = False, calls = [], logs = [], mutex = None,
      tasks = map (\<lambda>env. (Waiting, env)) envs\<rparr>"

fun compiling :: "'app PC \<Rightarrow> bool" where
  "compiling (Compiling app) = True"
| "compiling other = False"

text \<open>The tasks whose \<^verbatim>\<open>Compile\<close> call is in flight.\<close>

definition inFlight :: "('app, 'wit, 'prf) Sys \<Rightarrow> nat list" where
  "inFlight s = filter (\<lambda>i. compiling (fst (tasks s ! i))) [0..<length (tasks s)]"

text \<open>The compile attempts that have failed so far, as the log shows them.\<close>

definition failedCompiles :: "('app, 'wit, 'prf, 'z) Server_scheme \<Rightarrow> nat" where
  "failedCompiles s =
     length (filter (\<lambda>line. take 25 line = ''Error compiling circuit: '') (logs s))"

text \<open>
  The places between \<^verbatim>\<open>Lock\<close> and \<^verbatim>\<open>Unlock\<close>, and among them those reached only after
  the flag was seen false.
\<close>

fun inCritical :: "'app PC \<Rightarrow> bool" where
  "inCritical Waiting = False"
| "inCritical Finished = False"
| "inCritical other = True"

fun passedCheck :: "'app PC \<Rightarrow> bool" where
  "passedCheck Creating = True"
| "passedCheck (Created app) = True"
| "passedCheck (Compiling app) = True"
| "passedCheck other = False"

definition holderCompiling :: "('app, 'wit, 'prf) Sys \<Rightarrow> bool" where
  "holderCompiling s =
     (case mutex s of
        None \<Rightarrow> False
      | Some i \<Rightarrow> i < length (tasks s) \<and> compiling (fst (tasks s ! i)))"

text \<open>
  The invariant of the concurrent system: a task is between \<^verbatim>\<open>Lock\<close> and \<^verbatim>\<open>Unlock\<close>
  exactly when it holds the mutex; a task past the test of the flag implies the flag is
  still false; and every compile invocation is accounted for: it has failed, or it is in
  flight, or it has set the flag.
\<close>

definition sysInv :: "('app, 'wit, 'prf) Sys \<Rightarrow> bool" where
  "sysInv s \<longleftrightarrow>
     (\<forall>i<length (tasks s). inCritical (fst (tasks s ! i)) \<longleftrightarrow> mutex s = Some i) \<and>
     (\<forall>i<length (tasks s). passedCheck (fst (tasks s ! i)) \<longrightarrow> \<not> circuitPrepared s) \<and>
     compileCalls s =
       failedCompiles s + (if holderCompiling s then 1 else 0) + (if circuitPrepared s then 1 else 0)"

section \<open>Collaborators and states to run the handlers on\<close>

definition slots3 :: CircuitInput where
  "slots3 = \<lparr>StorageSlots = [\<lparr>Value = 10000\<rparr>, \<lparr>Value = 10000\<rparr>, \<lparr>Value = 10000\<rparr>]\<rparr>"

text \<open>Collaborators all of whose operations succeed.\<close>

definition envOK :: "(unit, unit, unit) Env" where
  "envOK =
     \<lparr>NewBrevisApp = (\<lambda>chain url dir. Inr ()),
      Compile = (\<lambda>c outDir srsDir app. None),
      BuildCircuitInput = (\<lambda>app c. Inr slots3),
      NewFullWitness = (\<lambda>c i. Inr ()),
      Prove = (\<lambda>w. Inr ()),
      SubmitProof = (\<lambda>app p. None),
      PrepareRequest = (\<lambda>app w src dst refund token gas key. Inr (7, 100)),
      WaitFinalProofSubmitted = (\<lambda>app. Inr 9)\<rparr>"

definition envInitFails :: "(unit, unit, unit) Env" where
  "envInitFails = envOK\<lparr>NewBrevisApp := (\<lambda>chain url dir. Inl ''no rpc'')\<rparr>"

definition envCompileFails :: "(unit, unit, unit) Env" where
  "envCompileFails = envOK\<lparr>Compile := (\<lambda>c outDir srsDir app. Some ''no srs'')\<rparr>"

definition envBuildFails :: "(unit, unit, unit) Env" where
  "envBuildFails = envOK\<lparr>BuildCircuitInput := (\<lambda>app c. Inl ''rpc error'')\<rparr>"

text \<open>The process as it starts, and after a successful preparation.\<close>

definition server0 :: "(unit, unit, unit) Server" where
  "server0 = \<lparr>circuitPrepared = False, calls = [], logs = []\<rparr>"

definition serverPrepared :: "(unit, unit, unit) Server" where
  "serverPrepared = server0\<lparr>circuitPrepared := True\<rparr>"

section \<open>Properties of the circuit\<close>

subsection \<open>Words and sums\<close>

lemma foldl_plus_sum_list: "foldl (+) a xs = a + sum_list (xs :: Uint248 list)"
  by (induction xs arbitrary: a) (simp_all add: add.assoc)

lemma Sum_sum_list: "Sum xs = sum_list xs"
  by (simp add: Sum_def foldl_plus_sum_list)

lemma sum_list_all_equal:
  fixes e :: Uint248
  assumes "\<forall>x\<in>set xs. f x = e"
  shows "sum_list (map f xs) = of_nat (length xs) * e"
  using assms by (induction xs) (simp_all add: algebra_simps)

lemma drop_bit_248_iff:
  fixes v :: Bytes32
  shows "drop_bit 248 v = 0 \<longleftrightarrow> unat v < 2 ^ 248"
proof -
  have "drop_bit 248 v = 0 \<longleftrightarrow> unat (drop_bit 248 v) = 0"
    by (simp only: unat_0_iff)
  also have "\<dots> \<longleftrightarrow> unat v div 2 ^ 248 = 0"
    by (simp only: unat_drop_bit_eq) (simp only: drop_bit_eq_div)
  also have "\<dots> \<longleftrightarrow> unat v < 2 ^ 248"
    by (simp only: div_eq_0_iff) simp
  finally show ?thesis .
qed

lemma unat_ucast_248:
  fixes v :: Bytes32
  shows "unat (ucast v :: Uint248) = unat v mod 2 ^ 248"
  by (simp only: unsigned_ucast_eq take_bit_eq_mod) simp

text \<open>
  A 32-byte value equals a 248-bit number exactly when its top 8 bits are zero and its
  low 248 bits are that number.
\<close>

lemma value_eq_iff:
  fixes v :: Bytes32 and e :: Uint248
  shows "unat v = unat e \<longleftrightarrow> drop_bit 248 v = 0 \<and> (ucast v :: Uint248) = e"
proof
  assume eq: "unat v = unat e"
  have "unat e < 2 ^ 248" using unsigned_less [of e] by simp
  with eq have lt: "unat v < 2 ^ 248" by simp
  then have "unat (ucast v :: Uint248) = unat e"
    using eq by (simp only: unat_ucast_248 mod_less)
  then have "(ucast v :: Uint248) = e" by (simp only: word_unat_eq_iff)
  with lt show "drop_bit 248 v = 0 \<and> (ucast v :: Uint248) = e"
    by (simp only: drop_bit_248_iff simp_thms)
next
  assume h: "drop_bit 248 v = 0 \<and> (ucast v :: Uint248) = e"
  then have lt: "unat v < 2 ^ 248" by (simp only: drop_bit_248_iff)
  from h have "unat e = unat v mod 2 ^ 248" using unat_ucast_248 [of v] by simp
  with lt show "unat v = unat e" by simp
qed

subsection \<open>The in-circuit constant\<close>

lemma unat_Uint64: "unat (Uint64 x) = nat \<bar>x\<bar> mod 2 ^ 64"
proof -
  have "unat (Uint64 x) = nat (take_bit 64 \<bar>x\<bar>)"
    unfolding Uint64_def by (simp add: unsigned_of_int)
  also have "\<dots> = nat \<bar>x\<bar> mod 2 ^ 64"
    by (simp add: take_bit_eq_mod nat_mod_distrib)
  finally show ?thesis .
qed

lemma unat_expectedEmission: "unat (expectedEmission c) = nat \<bar>EmissionsData c\<bar> mod 2 ^ 64"
proof -
  let ?w = "Uint64 (EmissionsData c)"
  have "unat (expectedEmission c) = take_bit 248 (unat ?w)"
    unfolding expectedEmission_def ConstUint248_def by (simp only: unsigned_ucast_eq) simp
  also have "\<dots> = unat ?w"
  proof (rule take_bit_nat_eq_self)
    have "unat ?w < 2 ^ 64" using unsigned_less [of ?w] by simp
    also have "(2::nat) ^ 64 < 2 ^ 248" by simp
    finally show "unat ?w < 2 ^ 248" .
  qed
  finally show ?thesis by (simp only: unat_Uint64)
qed

lemma unat_expectedEmission_less: "unat (expectedEmission c) < 2 ^ 64"
  by (simp only: unat_expectedEmission) simp

lemma unat_times_expectedEmission:
  assumes "n \<le> 32"
  shows "unat (of_nat n * expectedEmission c) = unat (expectedEmission c) * n"
proof -
  have n: "unat (of_nat n :: Uint248) = n"
  proof -
    have "n < 2 ^ 248" using assms by (rule le_less_trans) simp
    then show ?thesis by (simp only: unat_of_nat len_num0 len_bit0 len_num1 mod_less) simp
  qed
  have "n * unat (expectedEmission c) \<le> 32 * unat (expectedEmission c)"
    using assms by (rule mult_le_mono1)
  also have "\<dots> < 32 * 2 ^ 64"
    using unat_expectedEmission_less [of c] by simp
  also have "\<dots> < (2::nat) ^ 248" by simp
  finally have "unat (of_nat n :: Uint248) * unat (expectedEmission c) < 2 ^ LENGTH(248)"
    by (simp only: n) simp
  then have "unat (of_nat n * expectedEmission c) = unat (of_nat n :: Uint248) * unat (expectedEmission c)"
    by (simp only: unat_mult_lem)
  then show ?thesis by (simp only: n mult.commute)
qed

subsection \<open>What Define leaves in the API\<close>

lemma IsEqual_1: "IsEqual a b = 1 \<longleftrightarrow> a = b"
  by (simp add: IsEqual_def)

lemma AssertEach_constraints:
  "constraints (AssertEach xs (\<lambda>slot a. case ToUint248 (Value slot) a of
       (emissionValue, a') \<Rightarrow> (IsEqual emissionValue (expectedEmission c), a')) api) =
     constraints api @
     concat (map (\<lambda>s. [drop_bit 248 (Value s) = 0, (ucast (Value s) :: Uint248) = expectedEmission c]) xs)"
  by (induction xs arbitrary: api) (simp_all add: ToUint248_def assertIsTrue_def IsEqual_1)

lemma AssertEach_outputs:
  "outputs (AssertEach xs (\<lambda>slot a. case ToUint248 (Value slot) a of
       (emissionValue, a') \<Rightarrow> (IsEqual emissionValue (expectedEmission c), a')) api) =
     outputs api"
  by (induction xs arbitrary: api) (simp_all add: ToUint248_def assertIsTrue_def)

lemma Map_stream_ToUint248:
  "Map_stream xs (\<lambda>slot a. ToUint248 (Value slot) a) api =
     (map (\<lambda>s. ucast (Value s)) xs,
      api\<lparr>constraints := constraints api @ map (\<lambda>s. drop_bit 248 (Value s) = 0) xs\<rparr>)"
  by (induction xs arbitrary: api) (simp_all add: ToUint248_def assertIsTrue_def)

lemma Define_result:
  "Define c api inp =
     (None,
      \<lparr>constraints = constraints api @
         concat (map (\<lambda>s. [drop_bit 248 (Value s) = 0, (ucast (Value s) :: Uint248) = expectedEmission c])
                   (StorageSlots inp)) @
         map (\<lambda>s. drop_bit 248 (Value s) = 0) (StorageSlots inp) @
         [unat (sum_list (map (\<lambda>s. ucast (Value s) :: Uint248) (StorageSlots inp))) < 2 ^ 248],
       outputs = outputs api @ [(248, sum_list (map (\<lambda>s. ucast (Value s)) (StorageSlots inp)))]\<rparr>)"
  unfolding Define_def Let_def NewDataStream_def
  by (simp only: Map_stream_ToUint248 prod.case OutputUint_def assertIsTrue_def Sum_sum_list)
     (simp add: AssertEach_constraints AssertEach_outputs)

lemma Define_satisfied_iff:
  "satisfied (snd (Define c api inp)) \<longleftrightarrow>
     satisfied api \<and> (\<forall>slot\<in>set (StorageSlots inp). unat (Value slot) = unat (expectedEmission c))"
proof -
  have "unat (sum_list (map (\<lambda>s. ucast (Value s) :: Uint248) (StorageSlots inp))) < 2 ^ 248"
    using unsigned_less [of "sum_list (map (\<lambda>s. ucast (Value s) :: Uint248) (StorageSlots inp))"]
    by simp
  then show ?thesis
    by (simp only: value_eq_iff) (auto simp add: Define_result satisfied_def list_all_iff)
qed

lemma expectedEmission_10000: "expectedEmission \<lparr>EmissionsData = 10000\<rparr> = 10000"
  by (simp add: expectedEmission_def ConstUint248_def Uint64_def)

lemma uint_expectedEmission: "uint (expectedEmission c) = \<bar>EmissionsData c\<bar> mod 2 ^ 64"
proof -
  have "uint (expectedEmission c) = int (unat (expectedEmission c))" by simp
  also have "\<dots> = int (nat \<bar>EmissionsData c\<bar> mod 2 ^ 64)" by (simp only: unat_expectedEmission)
  also have "\<dots> = \<bar>EmissionsData c\<bar> mod 2 ^ 64" by (simp add: zmod_int)
  finally show ?thesis .
qed

lemma uint_expectedEmission_fits:
  assumes "0 \<le> EmissionsData c" and "EmissionsData c < 2 ^ 64"
  shows "uint (expectedEmission c) = EmissionsData c"
  using assms by (simp add: uint_expectedEmission)

lemma slot_equals_configured:
  assumes "0 \<le> EmissionsData c" and "EmissionsData c < 2 ^ 64"
  shows "unat (Value slot) = unat (expectedEmission c) \<longleftrightarrow> uint (Value slot) = EmissionsData c"
proof -
  have "unat (Value slot) = unat (expectedEmission c) \<longleftrightarrow>
          uint (Value slot) = uint (expectedEmission c)"
    by (simp only: uint_nat of_nat_eq_iff)
  then show ?thesis by (simp only: uint_expectedEmission_fits [OF assms])
qed

text \<open>
  With every slot equal to the in-circuit constant, the constraints are satisfied and
  the output is that constant times the number of slots.
\<close>

lemma Define_constant_all_equal:
  assumes len: "length (StorageSlots inp) \<le> 32"
    and eq: "\<forall>slot\<in>set (StorageSlots inp). unat (Value slot) = unat (expectedEmission c)"
  shows "\<exists>api total. Define c newCircuitAPI inp = (None, api) \<and> satisfied api \<and>
           outputs api = [(248, total)] \<and>
           unat total = unat (expectedEmission c) * length (StorageSlots inp)"
proof -
  let ?xs = "StorageSlots inp"
  let ?total = "sum_list (map (\<lambda>s. ucast (Value s) :: Uint248) ?xs)"
  from eq have lo: "\<forall>s\<in>set ?xs. (ucast (Value s) :: Uint248) = expectedEmission c"
    by (simp only: value_eq_iff) blast
  have total: "?total = of_nat (length ?xs) * expectedEmission c"
    using lo by (rule sum_list_all_equal)
  have utotal: "unat ?total = unat (expectedEmission c) * length ?xs"
    by (simp only: total unat_times_expectedEmission [OF len])
  have "satisfied newCircuitAPI"
    by (simp add: satisfied_def newCircuitAPI_def)
  with eq have sat: "satisfied (snd (Define c newCircuitAPI inp))"
    by (simp only: Define_satisfied_iff simp_thms)
  have out: "outputs (snd (Define c newCircuitAPI inp)) = [(248, ?total)]"
    by (simp add: Define_result newCircuitAPI_def)
  have "fst (Define c newCircuitAPI inp) = None"
    by (simp add: Define_result)
  then have "Define c newCircuitAPI inp = (None, snd (Define c newCircuitAPI inp))"
    by (simp add: prod_eq_iff)
  with sat out utotal show ?thesis by blast
qed

subsection \<open>Streams whose slots all equal the configured value\<close>

text \<open>
  C1, as the code has it. The configured constant is \<open>EmissionsData\<close>. For every
  configured value below \<open>2 ^ 64\<close> and every slot stream of length at most 32 in which
  every slot's value equals the configured value, \<open>Define\<close> returns no error and leaves
  a satisfied constraint system whose single public output, of 248 bits, is the
  configured value multiplied by the number of slots (as numbers, with no wrap-around).
  (No slot equals a negative value, so for a negative configured value this is the empty
  stream, with output 0.)
\<close>

theorem Define_all_equal:
  assumes fits: "EmissionsData c < 2 ^ 64"
    and len: "length (StorageSlots inp) \<le> 32"
    and eq: "\<forall>slot\<in>set (StorageSlots inp). uint (Value slot) = EmissionsData c"
  shows "\<exists>api total. Define c newCircuitAPI inp = (None, api) \<and> satisfied api \<and>
           outputs api = [(248, total)] \<and>
           uint total = EmissionsData c * int (length (StorageSlots inp))"
proof -
  have eq': "\<forall>slot\<in>set (StorageSlots inp). unat (Value slot) = unat (expectedEmission c)"
  proof
    fix slot assume slot: "slot \<in> set (StorageSlots inp)"
    with eq have v: "uint (Value slot) = EmissionsData c" by blast
    have "0 \<le> uint (Value slot)" by simp
    with v have "0 \<le> EmissionsData c" by simp
    from slot_equals_configured [OF this fits] v
    show "unat (Value slot) = unat (expectedEmission c)" by blast
  qed
  from Define_constant_all_equal [OF len eq']
  obtain api total where d: "Define c newCircuitAPI inp = (None, api)" and s: "satisfied api"
    and out: "outputs api = [(248, total)]"
    and t: "unat total = unat (expectedEmission c) * length (StorageSlots inp)"
    by blast
  have "uint total = EmissionsData c * int (length (StorageSlots inp))"
  proof (cases "StorageSlots inp")
    case Nil
    with t have "unat total = 0" by simp
    then have "total = 0" by (simp only: unat_eq_zero)
    with Nil show ?thesis by simp
  next
    case (Cons slot rest)
    with eq have v: "uint (Value slot) = EmissionsData c" by simp
    have "0 \<le> uint (Value slot)" by simp
    with v have "0 \<le> EmissionsData c" by simp
    then have e: "uint (expectedEmission c) = EmissionsData c"
      using fits by (rule uint_expectedEmission_fits)
    have "uint total = int (unat (expectedEmission c) * length (StorageSlots inp))"
      by (simp only: uint_nat t)
    also have "\<dots> = uint (expectedEmission c) * int (length (StorageSlots inp))"
      by (simp only: uint_nat of_nat_mult)
    finally show ?thesis by (simp only: e)
  qed
  with d s out show ?thesis by blast
qed

theorem Define_all_equal_witness:
  "\<exists>api. Define \<lparr>EmissionsData = 10000\<rparr> newCircuitAPI
            \<lparr>StorageSlots = [\<lparr>Value = 10000\<rparr>, \<lparr>Value = 10000\<rparr>, \<lparr>Value = 10000\<rparr>]\<rparr> = (None, api) \<and>
         satisfied api \<and> outputs api = [(248, 30000)]"
proof -
  let ?inp = "\<lparr>StorageSlots = [\<lparr>Value = 10000\<rparr>, \<lparr>Value = 10000\<rparr>, \<lparr>Value = 10000\<rparr>]\<rparr>"
  have "\<exists>api total. Define \<lparr>EmissionsData = 10000\<rparr> newCircuitAPI ?inp = (None, api) \<and> satisfied api \<and>
           outputs api = [(248, total)] \<and> uint total = 30000"
    using Define_all_equal [of "\<lparr>EmissionsData = 10000\<rparr>" ?inp]
    by simp
  then obtain api total where d: "Define \<lparr>EmissionsData = 10000\<rparr> newCircuitAPI ?inp = (None, api)"
    and s: "satisfied api" and out: "outputs api = [(248, total)]" and t: "uint total = 30000"
    by blast
  from t have "uint total = uint (30000 :: Uint248)" by simp
  then have "total = 30000" by (simp only: word_uint_eq_iff)
  with d s out show ?thesis by blast
qed

text \<open>
  C1 as stated fails for a configured value of \<open>2 ^ 64\<close> or more: with
  \<open>EmissionsData = 2 ^ 64 + 5\<close> and one slot of that very value, the slot is compared
  with the constant 5 and the constraints are not satisfied.
\<close>

theorem configured_value_counterexample:
  "length (StorageSlots \<lparr>StorageSlots = [\<lparr>Value = 18446744073709551621\<rparr>]\<rparr>) \<le> 32 \<and>
   uint (Value \<lparr>Value = 18446744073709551621\<rparr>) = EmissionsData \<lparr>EmissionsData = 18446744073709551621\<rparr> \<and>
   \<not> satisfied (snd (Define \<lparr>EmissionsData = 18446744073709551621\<rparr> newCircuitAPI
                        \<lparr>StorageSlots = [\<lparr>Value = 18446744073709551621\<rparr>]\<rparr>))"
proof -
  have "uint (expectedEmission \<lparr>EmissionsData = 18446744073709551621\<rparr>) = 5"
    by (simp add: uint_expectedEmission)
  then have "unat (expectedEmission \<lparr>EmissionsData = 18446744073709551621\<rparr>) = 5"
    by (simp only: uint_nat)
  then show ?thesis
    by (simp only: Define_satisfied_iff) simp
qed

subsection \<open>Streams with a slot that differs from the configured value\<close>

text \<open>
  C2, as the code has it. For every configured value from 0 up to \<open>2 ^ 64 - 1\<close> and
  every slot stream containing at least one slot whose value differs from the configured
  value, the constraint system \<open>Define\<close> leaves is not satisfied, whatever was in the
  API before.
\<close>

theorem Define_some_differs:
  assumes "0 \<le> EmissionsData c" and "EmissionsData c < 2 ^ 64"
    and "\<exists>slot\<in>set (StorageSlots inp). uint (Value slot) \<noteq> EmissionsData c"
  shows "\<not> satisfied (snd (Define c api inp))"
proof -
  from assms(3) obtain slot where "slot \<in> set (StorageSlots inp)"
    and "uint (Value slot) \<noteq> EmissionsData c" by blast
  then have "\<exists>slot\<in>set (StorageSlots inp). unat (Value slot) \<noteq> unat (expectedEmission c)"
    using slot_equals_configured [OF assms(1,2)] by blast
  then show ?thesis by (simp only: Define_satisfied_iff) blast
qed

theorem Define_some_differs_witness:
  "\<not> satisfied (snd (Define \<lparr>EmissionsData = 10000\<rparr> newCircuitAPI
       \<lparr>StorageSlots = [\<lparr>Value = 10000\<rparr>, \<lparr>Value = 9999\<rparr>, \<lparr>Value = 10000\<rparr>]\<rparr>))"
  using Define_some_differs [of "\<lparr>EmissionsData = 10000\<rparr>"
      "\<lparr>StorageSlots = [\<lparr>Value = 10000\<rparr>, \<lparr>Value = 9999\<rparr>, \<lparr>Value = 10000\<rparr>]\<rparr>" newCircuitAPI]
  by simp

text \<open>
  C2 as stated fails for a configured value of \<open>2 ^ 64\<close> or more: with
  \<open>EmissionsData = 2 ^ 64 + 5\<close> and three slots valued 5, every slot differs from the
  configured value, yet the constraints are satisfied and the output is 15.
\<close>

theorem differing_slots_counterexample:
  "uint (Value \<lparr>Value = 5\<rparr>) \<noteq> EmissionsData \<lparr>EmissionsData = 18446744073709551621\<rparr> \<and>
   satisfied (snd (Define \<lparr>EmissionsData = 18446744073709551621\<rparr> newCircuitAPI
                     \<lparr>StorageSlots = [\<lparr>Value = 5\<rparr>, \<lparr>Value = 5\<rparr>, \<lparr>Value = 5\<rparr>]\<rparr>)) \<and>
   outputs (snd (Define \<lparr>EmissionsData = 18446744073709551621\<rparr> newCircuitAPI
                   \<lparr>StorageSlots = [\<lparr>Value = 5\<rparr>, \<lparr>Value = 5\<rparr>, \<lparr>Value = 5\<rparr>]\<rparr>)) = [(248, 15)]"
proof -
  have "uint (expectedEmission \<lparr>EmissionsData = 18446744073709551621\<rparr>) = 5"
    by (simp add: uint_expectedEmission)
  then have u: "unat (expectedEmission \<lparr>EmissionsData = 18446744073709551621\<rparr>) = 5"
    by (simp only: uint_nat)
  have s: "satisfied (snd (Define \<lparr>EmissionsData = 18446744073709551621\<rparr> newCircuitAPI
                     \<lparr>StorageSlots = [\<lparr>Value = 5\<rparr>, \<lparr>Value = 5\<rparr>, \<lparr>Value = 5\<rparr>]\<rparr>))"
    by (simp only: Define_satisfied_iff) (simp add: u satisfied_def newCircuitAPI_def)
  have o: "outputs (snd (Define \<lparr>EmissionsData = 18446744073709551621\<rparr> newCircuitAPI
                   \<lparr>StorageSlots = [\<lparr>Value = 5\<rparr>, \<lparr>Value = 5\<rparr>, \<lparr>Value = 5\<rparr>]\<rparr>)) = [(248, 15)]"
    by (simp add: Define_result newCircuitAPI_def)
  from s o show ?thesis by simp
qed

subsection \<open>The constant is the low 64 bits of the configured value\<close>

text \<open>
  C10, as the code has it. Every slot is asserted to equal the in-circuit constant, and
  that constant is built from the low 64 bits of \<open>EmissionsData\<close>: for a value of
  \<open>2 ^ 64\<close> or more it is \<open>EmissionsData mod 2 ^ 64\<close> and differs from
  \<open>EmissionsData\<close>; for a value from 0 up to \<open>2 ^ 64 - 1\<close> it is \<open>EmissionsData\<close>
  itself.
\<close>

theorem expectedEmission_truncated:
  "(satisfied (snd (Define c api inp)) \<longrightarrow>
      (\<forall>slot\<in>set (StorageSlots inp). uint (Value slot) = uint (expectedEmission c))) \<and>
   (2 ^ 64 \<le> EmissionsData c \<longrightarrow>
      uint (expectedEmission c) = EmissionsData c mod 2 ^ 64 \<and>
      uint (expectedEmission c) \<noteq> EmissionsData c) \<and>
   (0 \<le> EmissionsData c \<and> EmissionsData c < 2 ^ 64 \<longrightarrow>
      uint (expectedEmission c) = EmissionsData c)"
proof (intro conjI impI)
  assume "satisfied (snd (Define c api inp))"
  then have "\<forall>slot\<in>set (StorageSlots inp). unat (Value slot) = unat (expectedEmission c)"
    by (simp only: Define_satisfied_iff) blast
  then show "\<forall>slot\<in>set (StorageSlots inp). uint (Value slot) = uint (expectedEmission c)"
    by (simp only: uint_nat) simp
next
  assume h: "2 ^ 64 \<le> EmissionsData c"
  then show "uint (expectedEmission c) = EmissionsData c mod 2 ^ 64"
    by (simp add: uint_expectedEmission)
  have "uint (expectedEmission c) < 2 ^ 64"
    by (simp add: uint_expectedEmission)
  with h show "uint (expectedEmission c) \<noteq> EmissionsData c" by simp
next
  assume "0 \<le> EmissionsData c \<and> EmissionsData c < 2 ^ 64"
  then show "uint (expectedEmission c) = EmissionsData c"
    by (simp add: uint_expectedEmission)
qed

text \<open>
  C10 as stated fails for a value below \<open>2 ^ 64\<close> that is negative: a \<^verbatim>\<open>big.Int\<close>
  can be, and the constant, an unsigned number, is then not \<open>EmissionsData\<close>.
\<close>

theorem negative_constant_counterexample:
  "EmissionsData \<lparr>EmissionsData = - 1\<rparr> < 2 ^ 64 \<and>
   uint (expectedEmission \<lparr>EmissionsData = - 1\<rparr>) = 1 \<and>
   uint (expectedEmission \<lparr>EmissionsData = - 1\<rparr>) \<noteq> EmissionsData \<lparr>EmissionsData = - 1\<rparr>"
  by (simp add: uint_expectedEmission)

theorem expectedEmission_truncated_witness:
  "uint (expectedEmission \<lparr>EmissionsData = 2 ^ 64 + 5\<rparr>) = 5 \<and>
   uint (expectedEmission \<lparr>EmissionsData = 10000\<rparr>) = 10000 \<and>
   map (\<lambda>slot. uint (Value slot)) (StorageSlots slots3) = [10000, 10000, 10000]"
proof -
  have s: "satisfied (snd (Define \<lparr>EmissionsData = 10000\<rparr> newCircuitAPI slots3))"
    by (simp only: Define_satisfied_iff)
       (simp add: satisfied_def newCircuitAPI_def slots3_def expectedEmission_10000)
  from expectedEmission_truncated [of "\<lparr>EmissionsData = 2 ^ 64 + 5\<rparr>" newCircuitAPI slots3]
  have a: "uint (expectedEmission \<lparr>EmissionsData = 2 ^ 64 + 5\<rparr>) = 5" by simp
  from expectedEmission_truncated [of "\<lparr>EmissionsData = 10000\<rparr>" newCircuitAPI slots3] s
  have b: "uint (expectedEmission \<lparr>EmissionsData = 10000\<rparr>) = 10000"
    and c: "\<forall>slot\<in>set (StorageSlots slots3). uint (Value slot) = uint (expectedEmission \<lparr>EmissionsData = 10000\<rparr>)"
    by simp_all
  from a b c show ?thesis by (simp add: slots3_def)
qed

section \<open>Properties of the handlers\<close>

subsection \<open>What the handlers do to the process state\<close>

lemma handleSubmitProof_flag:
  "circuitPrepared (snd (handleSubmitProof env s)) = circuitPrepared s"
  by (simp add: handleSubmitProof_def Let_def invoke_def split: sum.split option.split prod.split)

lemma prepareTask_prepared:
  "circuitPrepared s \<Longrightarrow> prepareTask env s = s\<lparr>logs := logs s @ [''Circuit already prepared.'']\<rparr>"
  by (simp add: prepareTask_def logPrintln_def)

lemma prepareTask_flag:
  "circuitPrepared (prepareTask env s) \<longleftrightarrow>
     circuitPrepared s \<or>
     (\<exists>app. NewBrevisApp env 11155111 ''https://sepolia.drpc.org'' ''./brevis-output'' = Inr app \<and>
            Compile env \<lparr>EmissionsData = 10000\<rparr> ''./brevis-circuit'' ''./brevis-srs'' app = None)"
  by (simp add: prepareTask_def Let_def logPrintln_def invoke_def split: sum.split option.split)

lemma prepareTask_compileCalls:
  "compileCalls (prepareTask env s) =
     compileCalls s +
     (if \<not> circuitPrepared s \<and>
         (\<exists>app. NewBrevisApp env 11155111 ''https://sepolia.drpc.org'' ''./brevis-output'' = Inr app)
      then 1 else 0)"
  by (simp add: prepareTask_def Let_def logPrintln_def invoke_def compileCalls_def
      split: sum.split option.split)

lemma serve_flag: "circuitPrepared s \<Longrightarrow> circuitPrepared (serve r s)"
  by (cases r) (simp_all add: handlePrepareDownload_def prepareTask_flag handleSubmitProof_flag)

lemma serveAll_flag: "circuitPrepared s \<Longrightarrow> circuitPrepared (serveAll rs s)"
  by (induction rs arbitrary: s) (simp_all add: serve_flag)

subsection \<open>Submission before preparation\<close>

text \<open>
  C3, as the code has it. A submission made while the flag is false is answered at once
  with the text "Circuit not prepared yet. Please try again later." and the status 400
  (Bad Request, a client error, not a server error); the process state is left exactly as
  it was: no collaborator is invoked, nothing is logged, the flag is unchanged.
\<close>

theorem handleSubmitProof_not_prepared:
  assumes "\<not> circuitPrepared s"
  shows "handleSubmitProof env s =
           (\<lparr>status = 400,
             body = Text (''Circuit not prepared yet. Please try again later.'' @ [CHR 0x0A])\<rparr>, s)"
  using assms by (simp add: handleSubmitProof_def httpError_def StatusBadRequest_def)

theorem handleSubmitProof_not_prepared_witness:
  "handleSubmitProof envOK server0 =
     (\<lparr>status = 400,
       body = Text (''Circuit not prepared yet. Please try again later.'' @ [CHR 0x0A])\<rparr>, server0)"
  using handleSubmitProof_not_prepared [of server0 envOK] by (simp add: server0_def)

text \<open>
  C3 as stated fails: the status of the not-ready reply is not a server error status.
\<close>

theorem not_ready_status_counterexample:
  "\<not> circuitPrepared server0 \<and>
   \<not> serverErrorStatus (status (fst (handleSubmitProof envOK server0)))"
  by (simp add: server0_def handleSubmitProof_def httpError_def StatusBadRequest_def
      serverErrorStatus_def)

subsection \<open>The submission pipeline stops at the first error\<close>

text \<open>
  C4. In a prepared process, the collaborator invocations of one submission are a
  non-empty initial part of the pipeline, in its order. An invocation that returns an
  error is the last one made, and the reply is that stage's error with status 500; so no
  later stage runs. If no invocation returns an error, all seven stages have run and the
  reply has status 200. In particular, if building the circuit input fails, the reply is
  that error and the only invocations are the app construction and the input build: no
  witness generation, proof generation, proof submission, request preparation or
  finality wait.
\<close>

theorem pipeline_fail_fast:
  assumes "circuitPrepared s"
  shows "(\<exists>new. calls (snd (handleSubmitProof env s)) = calls s @ new \<and> new \<noteq> [] \<and>
            map stageOf new = take (length new) pipeline \<and>
            (\<forall>c\<in>set new. \<forall>err. callError env c = Some err \<longrightarrow>
               c = last new \<and>
               fst (handleSubmitProof env s) =
                 \<lparr>status = 500, body = Text (errorText (stageOf c) @ err @ [CHR 0x0A])\<rparr>) \<and>
            ((\<forall>c\<in>set new. callError env c = None) \<longrightarrow>
               length new = length pipeline \<and> status (fst (handleSubmitProof env s)) = 200)) \<and>
         (\<forall>app err.
            NewBrevisApp env 11155111 ''https://sepolia.drpc.org'' ''./brevis-output'' = Inr app \<and>
            BuildCircuitInput env app \<lparr>EmissionsData = 10000\<rparr> = Inl err \<longrightarrow>
            handleSubmitProof env s =
              (\<lparr>status = 500, body = Text (''Error building circuit input: '' @ err @ [CHR 0x0A])\<rparr>,
               s\<lparr>calls := calls s @
                    [CallNewBrevisApp 11155111 ''https://sepolia.drpc.org'' ''./brevis-output'',
                     CallBuildCircuitInput app \<lparr>EmissionsData = 10000\<rparr>]\<rparr>))"
proof (intro conjI allI impI)
  show "\<exists>new. calls (snd (handleSubmitProof env s)) = calls s @ new \<and> new \<noteq> [] \<and>
            map stageOf new = take (length new) pipeline \<and>
            (\<forall>c\<in>set new. \<forall>err. callError env c = Some err \<longrightarrow>
               c = last new \<and>
               fst (handleSubmitProof env s) =
                 \<lparr>status = 500, body = Text (errorText (stageOf c) @ err @ [CHR 0x0A])\<rparr>) \<and>
            ((\<forall>c\<in>set new. callError env c = None) \<longrightarrow>
               length new = length pipeline \<and> status (fst (handleSubmitProof env s)) = 200)"
    using assms
    by (simp add: handleSubmitProof_def Let_def invoke_def httpError_def StatusOK_def
        StatusInternalServerError_def pipeline_def
        split: sum.split option.split prod.split)
next
  fix app err
  assume "NewBrevisApp env 11155111 ''https://sepolia.drpc.org'' ''./brevis-output'' = Inr app \<and>
            BuildCircuitInput env app \<lparr>EmissionsData = 10000\<rparr> = Inl err"
  with assms show "handleSubmitProof env s =
              (\<lparr>status = 500, body = Text (''Error building circuit input: '' @ err @ [CHR 0x0A])\<rparr>,
               s\<lparr>calls := calls s @
                    [CallNewBrevisApp 11155111 ''https://sepolia.drpc.org'' ''./brevis-output'',
                     CallBuildCircuitInput app \<lparr>EmissionsData = 10000\<rparr>]\<rparr>)"
    by (simp add: handleSubmitProof_def Let_def invoke_def httpError_def StatusInternalServerError_def)
qed

theorem pipeline_fail_fast_witness:
  "handleSubmitProof envBuildFails serverPrepared =
     (\<lparr>status = 500, body = Text (''Error building circuit input: rpc error'' @ [CHR 0x0A])\<rparr>,
      serverPrepared\<lparr>calls :=
         [CallNewBrevisApp 11155111 ''https://sepolia.drpc.org'' ''./brevis-output'',
          CallBuildCircuitInput () \<lparr>EmissionsData = 10000\<rparr>]\<rparr>)"
proof -
  have p: "circuitPrepared serverPrepared"
    by (simp add: serverPrepared_def)
  have a: "NewBrevisApp envBuildFails 11155111 ''https://sepolia.drpc.org'' ''./brevis-output'' = Inr ()"
    by (simp add: envBuildFails_def envOK_def)
  have b: "BuildCircuitInput envBuildFails () \<lparr>EmissionsData = 10000\<rparr> = Inl ''rpc error''"
    by (simp add: envBuildFails_def envOK_def)
  have c: "calls serverPrepared = []"
    by (simp add: serverPrepared_def server0_def)
  from pipeline_fail_fast [OF p, of envBuildFails] a b
  have "handleSubmitProof envBuildFails serverPrepared =
      (\<lparr>status = 500, body = Text (''Error building circuit input: '' @ ''rpc error'' @ [CHR 0x0A])\<rparr>,
       serverPrepared\<lparr>calls := calls serverPrepared @
             [CallNewBrevisApp 11155111 ''https://sepolia.drpc.org'' ''./brevis-output'',
              CallBuildCircuitInput () \<lparr>EmissionsData = 10000\<rparr>]\<rparr>)"
    by blast
  then show ?thesis by (simp add: c)
qed

subsection \<open>A trigger after preparation does nothing\<close>

text \<open>
  C5. If the flag is true when the task runs, the task only logs "Circuit already
  prepared." and leaves everything else as it was. So when a first trigger has run to
  completion with success (the app was constructed and the compilation returned no
  error), the flag is true, and a second trigger after it adds no compile invocation:
  the two triggers together invoke compile exactly once.
\<close>

theorem trigger_idempotent:
  "(circuitPrepared s \<longrightarrow>
      prepareTask env s = s\<lparr>logs := logs s @ [''Circuit already prepared.'']\<rparr>) \<and>
   (\<not> circuitPrepared s \<and>
    NewBrevisApp env1 11155111 ''https://sepolia.drpc.org'' ''./brevis-output'' = Inr app \<and>
    Compile env1 \<lparr>EmissionsData = 10000\<rparr> ''./brevis-circuit'' ''./brevis-srs'' app = None \<longrightarrow>
      circuitPrepared (serveAll [Trigger env1] s) \<and>
      compileCalls (serveAll [Trigger env1] s) = compileCalls s + 1 \<and>
      compileCalls (serveAll [Trigger env1, Trigger env2] s) = compileCalls s + 1)"
proof (intro conjI impI)
  assume "circuitPrepared s"
  then show "prepareTask env s = s\<lparr>logs := logs s @ [''Circuit already prepared.'']\<rparr>"
    by (rule prepareTask_prepared)
next
  assume h: "\<not> circuitPrepared s \<and>
    NewBrevisApp env1 11155111 ''https://sepolia.drpc.org'' ''./brevis-output'' = Inr app \<and>
    Compile env1 \<lparr>EmissionsData = 10000\<rparr> ''./brevis-circuit'' ''./brevis-srs'' app = None"
  let ?s1 = "prepareTask env1 s"
  from h have p: "circuitPrepared ?s1"
    by (simp only: prepareTask_flag) blast
  from h have c: "compileCalls ?s1 = compileCalls s + 1"
    by (simp add: prepareTask_compileCalls)
  from p have "compileCalls (prepareTask env2 ?s1) = compileCalls ?s1"
    by (simp add: prepareTask_compileCalls)
  with c have c2: "compileCalls (prepareTask env2 ?s1) = compileCalls s + 1"
    by simp
  show "circuitPrepared (serveAll [Trigger env1] s)"
    using p by (simp add: handlePrepareDownload_def)
  show "compileCalls (serveAll [Trigger env1] s) = compileCalls s + 1"
    using c by (simp add: handlePrepareDownload_def)
  show "compileCalls (serveAll [Trigger env1, Trigger env2] s) = compileCalls s + 1"
    using c2 by (simp add: handlePrepareDownload_def)
qed

theorem trigger_idempotent_witness:
  "prepareTask envOK serverPrepared = serverPrepared\<lparr>logs := [''Circuit already prepared.'']\<rparr> \<and>
   compileCalls (serveAll [Trigger envOK, Trigger envOK] server0) = 1"
proof -
  have 1: "circuitPrepared serverPrepared" by (simp add: serverPrepared_def)
  have 2: "\<not> circuitPrepared server0 \<and>
    NewBrevisApp envOK 11155111 ''https://sepolia.drpc.org'' ''./brevis-output'' = Inr () \<and>
    Compile envOK \<lparr>EmissionsData = 10000\<rparr> ''./brevis-circuit'' ''./brevis-srs'' () = None"
    by (simp add: server0_def envOK_def)
  have 3: "logs serverPrepared = []" "compileCalls server0 = 0"
    by (simp_all add: serverPrepared_def server0_def compileCalls_def)
  from trigger_idempotent [of serverPrepared envOK envOK "()" envOK] 1
  have a: "prepareTask envOK serverPrepared =
             serverPrepared\<lparr>logs := logs serverPrepared @ [''Circuit already prepared.'']\<rparr>"
    by blast
  from trigger_idempotent [of server0 envOK envOK "()" envOK] 2
  have b: "compileCalls (serveAll [Trigger envOK, Trigger envOK] server0) = compileCalls server0 + 1"
    by blast
  from a b show ?thesis by (simp add: 3)
qed

subsection \<open>The task, case by case\<close>

lemma prepareTask_init_fails:
  assumes "\<not> circuitPrepared s"
    and "NewBrevisApp env 11155111 ''https://sepolia.drpc.org'' ''./brevis-output'' = Inl err"
  shows "prepareTask env s =
           s\<lparr>calls := calls s @ [CallNewBrevisApp 11155111 ''https://sepolia.drpc.org'' ''./brevis-output''],
             logs := logs s @ [''Error initializing BrevisApp: '' @ err]\<rparr>"
  using assms by (simp add: prepareTask_def Let_def logPrintln_def invoke_def)

lemma prepareTask_compile_fails:
  assumes "\<not> circuitPrepared s"
    and "NewBrevisApp env 11155111 ''https://sepolia.drpc.org'' ''./brevis-output'' = Inr app"
    and "Compile env \<lparr>EmissionsData = 10000\<rparr> ''./brevis-circuit'' ''./brevis-srs'' app = Some err"
  shows "prepareTask env s =
           s\<lparr>calls := calls s @ [CallNewBrevisApp 11155111 ''https://sepolia.drpc.org'' ''./brevis-output'',
                                  CallCompile \<lparr>EmissionsData = 10000\<rparr> ''./brevis-circuit'' ''./brevis-srs'' app],
             logs := logs s @ [''Error compiling circuit: '' @ err]\<rparr>"
  using assms by (simp add: prepareTask_def Let_def logPrintln_def invoke_def)

lemma prepareTask_succeeds:
  assumes "\<not> circuitPrepared s"
    and "NewBrevisApp env 11155111 ''https://sepolia.drpc.org'' ''./brevis-output'' = Inr app"
    and "Compile env \<lparr>EmissionsData = 10000\<rparr> ''./brevis-circuit'' ''./brevis-srs'' app = None"
  shows "prepareTask env s =
           s\<lparr>circuitPrepared := True,
             calls := calls s @ [CallNewBrevisApp 11155111 ''https://sepolia.drpc.org'' ''./brevis-output'',
                                  CallCompile \<lparr>EmissionsData = 10000\<rparr> ''./brevis-circuit'' ''./brevis-srs'' app],
             logs := logs s @ [''Circuit preparation complete.'']\<rparr>"
  using assms by (simp add: prepareTask_def Let_def logPrintln_def invoke_def)

subsection \<open>The reply to a trigger\<close>

text \<open>
  C8. The reply to a trigger is always status 200 with the text "Circuit preparation
  started.", whatever the collaborators will do. When the task it starts fails (the app
  construction or the compilation returns an error), the error goes to the log and
  nowhere else: the flag is unchanged, and a later submission made while the flag is
  false is answered with the fixed not-ready text.
\<close>

theorem trigger_reply_fixed:
  "\<exists>task. handlePrepareDownload env =
            (\<lparr>status = 200, body = Text ''Circuit preparation started.''\<rparr>, task) \<and>
     (\<not> circuitPrepared s \<and>
      NewBrevisApp env 11155111 ''https://sepolia.drpc.org'' ''./brevis-output'' = Inl err \<longrightarrow>
        task s =
          s\<lparr>calls := calls s @
               [CallNewBrevisApp 11155111 ''https://sepolia.drpc.org'' ''./brevis-output''],
            logs := logs s @ [''Error initializing BrevisApp: '' @ err]\<rparr>) \<and>
     (\<not> circuitPrepared s \<and>
      NewBrevisApp env 11155111 ''https://sepolia.drpc.org'' ''./brevis-output'' = Inr app \<and>
      Compile env \<lparr>EmissionsData = 10000\<rparr> ''./brevis-circuit'' ''./brevis-srs'' app = Some err \<longrightarrow>
        task s =
          s\<lparr>calls := calls s @
               [CallNewBrevisApp 11155111 ''https://sepolia.drpc.org'' ''./brevis-output'',
                CallCompile \<lparr>EmissionsData = 10000\<rparr> ''./brevis-circuit'' ''./brevis-srs'' app],
            logs := logs s @ [''Error compiling circuit: '' @ err]\<rparr>) \<and>
     (\<not> circuitPrepared (task s) \<longrightarrow>
        fst (handleSubmitProof env' (task s)) =
          \<lparr>status = 400,
            body = Text (''Circuit not prepared yet. Please try again later.'' @ [CHR 0x0A])\<rparr>)"
proof (intro exI conjI impI)
  show "handlePrepareDownload env =
          (\<lparr>status = 200, body = Text ''Circuit preparation started.''\<rparr>, prepareTask env)"
    by (simp add: handlePrepareDownload_def StatusOK_def)
next
  assume "\<not> circuitPrepared s \<and>
      NewBrevisApp env 11155111 ''https://sepolia.drpc.org'' ''./brevis-output'' = Inl err"
  then show "prepareTask env s =
          s\<lparr>calls := calls s @
               [CallNewBrevisApp 11155111 ''https://sepolia.drpc.org'' ''./brevis-output''],
            logs := logs s @ [''Error initializing BrevisApp: '' @ err]\<rparr>"
    by (simp add: prepareTask_init_fails)
next
  assume "\<not> circuitPrepared s \<and>
      NewBrevisApp env 11155111 ''https://sepolia.drpc.org'' ''./brevis-output'' = Inr app \<and>
      Compile env \<lparr>EmissionsData = 10000\<rparr> ''./brevis-circuit'' ''./brevis-srs'' app = Some err"
  then show "prepareTask env s =
          s\<lparr>calls := calls s @
               [CallNewBrevisApp 11155111 ''https://sepolia.drpc.org'' ''./brevis-output'',
                CallCompile \<lparr>EmissionsData = 10000\<rparr> ''./brevis-circuit'' ''./brevis-srs'' app],
            logs := logs s @ [''Error compiling circuit: '' @ err]\<rparr>"
    by (simp add: prepareTask_compile_fails)
next
  assume "\<not> circuitPrepared (prepareTask env s)"
  then show "fst (handleSubmitProof env' (prepareTask env s)) =
          \<lparr>status = 400,
            body = Text (''Circuit not prepared yet. Please try again later.'' @ [CHR 0x0A])\<rparr>"
    by (simp add: handleSubmitProof_def httpError_def StatusBadRequest_def)
qed

theorem trigger_reply_fixed_witness:
  "fst (handlePrepareDownload envCompileFails :: Response \<times> ((unit, unit, unit) Server \<Rightarrow> (unit, unit, unit) Server)) =
     \<lparr>status = 200, body = Text ''Circuit preparation started.''\<rparr> \<and>
   snd (handlePrepareDownload envCompileFails) server0 =
     server0\<lparr>calls :=
               [CallNewBrevisApp 11155111 ''https://sepolia.drpc.org'' ''./brevis-output'',
                CallCompile \<lparr>EmissionsData = 10000\<rparr> ''./brevis-circuit'' ''./brevis-srs'' ()],
             logs := [''Error compiling circuit: no srs'']\<rparr> \<and>
   fst (handlePrepareDownload envInitFails :: Response \<times> ((unit, unit, unit) Server \<Rightarrow> (unit, unit, unit) Server)) =
     \<lparr>status = 200, body = Text ''Circuit preparation started.''\<rparr> \<and>
   snd (handlePrepareDownload envInitFails) server0 =
     server0\<lparr>calls := [CallNewBrevisApp 11155111 ''https://sepolia.drpc.org'' ''./brevis-output''],
             logs := [''Error initializing BrevisApp: no rpc'']\<rparr>"
proof -
  have 0: "\<not> circuitPrepared server0" "calls server0 = []" "logs server0 = []"
    by (simp_all add: server0_def)
  have 1: "NewBrevisApp envCompileFails 11155111 ''https://sepolia.drpc.org'' ''./brevis-output'' = Inr ()"
    "Compile envCompileFails \<lparr>EmissionsData = 10000\<rparr> ''./brevis-circuit'' ''./brevis-srs'' () = Some ''no srs''"
    by (simp_all add: envCompileFails_def envOK_def)
  have 2: "NewBrevisApp envInitFails 11155111 ''https://sepolia.drpc.org'' ''./brevis-output'' = Inl ''no rpc''"
    by (simp add: envInitFails_def envOK_def)
  from trigger_reply_fixed [of envCompileFails server0 "''no srs''" "()" envOK] 0 1
  have a: "fst (handlePrepareDownload envCompileFails :: Response \<times> ((unit, unit, unit) Server \<Rightarrow> (unit, unit, unit) Server)) =
     \<lparr>status = 200, body = Text ''Circuit preparation started.''\<rparr> \<and>
   snd (handlePrepareDownload envCompileFails) server0 =
     server0\<lparr>calls :=
               [CallNewBrevisApp 11155111 ''https://sepolia.drpc.org'' ''./brevis-output'',
                CallCompile \<lparr>EmissionsData = 10000\<rparr> ''./brevis-circuit'' ''./brevis-srs'' ()],
             logs := [''Error compiling circuit: no srs'']\<rparr>"
    by auto
  from trigger_reply_fixed [of envInitFails server0 "''no rpc''" "()" envOK] 0 2
  have b: "fst (handlePrepareDownload envInitFails :: Response \<times> ((unit, unit, unit) Server \<Rightarrow> (unit, unit, unit) Server)) =
     \<lparr>status = 200, body = Text ''Circuit preparation started.''\<rparr> \<and>
   snd (handlePrepareDownload envInitFails) server0 =
     server0\<lparr>calls := [CallNewBrevisApp 11155111 ''https://sepolia.drpc.org'' ''./brevis-output''],
             logs := [''Error initializing BrevisApp: no rpc'']\<rparr>"
    by auto
  from a b show ?thesis by simp
qed

subsection \<open>The allocation and the size of the input\<close>



section \<open>Properties of concurrent triggers\<close>

lemma sysInv_start: "sysInv (start envs)"
  by (simp add: sysInv_def start_def compileCalls_def failedCompiles_def holderCompiling_def)

lemma sysInv_step:
  assumes inv: "sysInv s" and step: "task_step i s = Some s'"
  shows "sysInv s'"
proof -
  from step have i: "i < length (tasks s)"
    by (simp add: task_step_def split: if_splits)
  obtain pc env where t: "tasks s ! i = (pc, env)" by (cases "tasks s ! i")
  from inv have a: "\<And>j. j < length (tasks s) \<Longrightarrow> inCritical (fst (tasks s ! j)) \<longleftrightarrow> mutex s = Some j"
    and b: "\<And>j. j < length (tasks s) \<Longrightarrow> passedCheck (fst (tasks s ! j)) \<Longrightarrow> \<not> circuitPrepared s"
    and c: "compileCalls s =
       failedCompiles s + (if holderCompiling s then 1 else 0) + (if circuitPrepared s then 1 else 0)"
    by (simp_all add: sysInv_def)
  show ?thesis
  proof (cases pc)
    case Waiting
    with step i t have m: "mutex s = None"
      and s': "s' = setPC i Locked (s\<lparr>mutex := Some i\<rparr>)"
      by (auto simp add: task_step_def split: option.splits)
    show ?thesis
      using a b c m i t Waiting unfolding s'
      by (auto simp add: sysInv_def setPC_def nth_list_update compileCalls_def failedCompiles_def
          holderCompiling_def)
  next
    case Locked
    with a [OF i] t have m: "mutex s = Some i" by simp
    show ?thesis
    proof (cases "circuitPrepared s")
      case True
      with step i t Locked have s': "s' = setPC i Deferred (logPrintln ''Circuit already prepared.'' s)"
        by (simp add: task_step_def)
      show ?thesis
        using a b c m i t Locked True unfolding s'
        by (auto simp add: sysInv_def setPC_def nth_list_update compileCalls_def failedCompiles_def
            holderCompiling_def logPrintln_def)
    next
      case False
      with step i t Locked have s': "s' = setPC i Creating s"
        by (simp add: task_step_def)
      show ?thesis
        using a b c m i t Locked False unfolding s'
        by (auto simp add: sysInv_def setPC_def nth_list_update compileCalls_def failedCompiles_def
            holderCompiling_def)
    qed
  next
    case Creating
    with a [OF i] t have m: "mutex s = Some i" by simp
    from b [OF i] t Creating have np: "\<not> circuitPrepared s" by simp
    show ?thesis
    proof (cases "NewBrevisApp env 11155111 ''https://sepolia.drpc.org'' ''./brevis-output''")
      case (Inl err)
      with step i t Creating have s': "s' = setPC i Deferred
          (logPrintln (''Error initializing BrevisApp: '' @ err)
             (invoke (CallNewBrevisApp 11155111 ''https://sepolia.drpc.org'' ''./brevis-output'') s))"
        by (simp add: task_step_def)
      show ?thesis
        using a b c m i t Creating np unfolding s'
        by (auto simp add: sysInv_def setPC_def nth_list_update compileCalls_def failedCompiles_def
            holderCompiling_def logPrintln_def invoke_def)
    next
      case (Inr app)
      with step i t Creating have s': "s' = setPC i (Created app)
          (invoke (CallNewBrevisApp 11155111 ''https://sepolia.drpc.org'' ''./brevis-output'') s)"
        by (simp add: task_step_def)
      show ?thesis
        using a b c m i t Creating np unfolding s'
        by (auto simp add: sysInv_def setPC_def nth_list_update compileCalls_def failedCompiles_def
            holderCompiling_def logPrintln_def invoke_def)
    qed
  next
    case (Created app)
    with a [OF i] t have m: "mutex s = Some i" by simp
    from b [OF i] t Created have np: "\<not> circuitPrepared s" by simp
    from step i t Created have s': "s' = setPC i (Compiling app)
        (invoke (CallCompile \<lparr>EmissionsData = 10000\<rparr> ''./brevis-circuit'' ''./brevis-srs'' app) s)"
      by (simp add: task_step_def)
    show ?thesis
      using a b c m i t Created np unfolding s'
      by (auto simp add: sysInv_def setPC_def nth_list_update compileCalls_def failedCompiles_def
          holderCompiling_def logPrintln_def invoke_def)
  next
    case (Compiling app)
    with a [OF i] t have m: "mutex s = Some i" by simp
    from b [OF i] t Compiling have np: "\<not> circuitPrepared s" by simp
    show ?thesis
    proof (cases "Compile env \<lparr>EmissionsData = 10000\<rparr> ''./brevis-circuit'' ''./brevis-srs'' app")
      case None
      with step i t Compiling have s': "s' = setPC i Deferred
          (logPrintln ''Circuit preparation complete.'' (s\<lparr>circuitPrepared := True\<rparr>))"
        by (simp add: task_step_def)
      have others: "\<And>j. j < length (tasks s) \<Longrightarrow> j \<noteq> i \<Longrightarrow> \<not> passedCheck (fst (tasks s ! j))"
      proof
        fix j assume j: "j < length (tasks s)" "j \<noteq> i" "passedCheck (fst (tasks s ! j))"
        then have "inCritical (fst (tasks s ! j))" by (cases "fst (tasks s ! j)") simp_all
        with a [OF j(1)] m j(2) show False by simp
      qed
      show ?thesis
        using a b c m i t Compiling np others unfolding s'
        by (auto simp add: sysInv_def setPC_def nth_list_update compileCalls_def failedCompiles_def
            holderCompiling_def logPrintln_def invoke_def)
    next
      case (Some err)
      with step i t Compiling have s': "s' = setPC i Deferred
          (logPrintln (''Error compiling circuit: '' @ err) s)"
        by (simp add: task_step_def)
      show ?thesis
        using a b c m i t Compiling np unfolding s'
        by (auto simp add: sysInv_def setPC_def nth_list_update compileCalls_def failedCompiles_def
            holderCompiling_def logPrintln_def invoke_def)
    qed
  next
    case Deferred
    with a [OF i] t have m: "mutex s = Some i" by simp
    from step i t Deferred have s': "s' = setPC i Finished (s\<lparr>mutex := None\<rparr>)"
      by (simp add: task_step_def)
    show ?thesis
      using a b c m i t Deferred unfolding s'
      by (auto simp add: sysInv_def setPC_def nth_list_update compileCalls_def failedCompiles_def
          holderCompiling_def logPrintln_def invoke_def)
  next
    case Finished
    with step i t show ?thesis by (simp add: task_step_def)
  qed
qed


lemma sysInv_run: "sysInv s \<Longrightarrow> sysInv (run sched s)"
proof (induction sched arbitrary: s)
  case Nil
  then show ?case by simp
next
  case (Cons i sched)
  show ?case
  proof (cases "task_step i s")
    case None
    with Cons show ?thesis by simp
  next
    case (Some s')
    with Cons.prems have "sysInv s'" by (rule sysInv_step [rotated] sysInv_step)
    with Cons.IH Some show ?thesis by simp
  qed
qed

lemma run_append: "run (xs @ ys) s = run ys (run xs s)"
  by (induction xs arbitrary: s) simp_all

lemma step_after_prepared:
  assumes inv: "sysInv s" and p: "circuitPrepared s" and step: "task_step i s = Some s'"
  shows "circuitPrepared s' \<and> compileCalls s' = compileCalls s"
proof -
  from step have i: "i < length (tasks s)"
    by (simp add: task_step_def split: if_splits)
  from inv p i have "\<not> passedCheck (fst (tasks s ! i))"
    by (auto simp add: sysInv_def)
  with step p i show ?thesis
    by (auto simp add: task_step_def setPC_def logPrintln_def compileCalls_def
        split: prod.splits PC.splits option.splits)
qed

lemma run_after_prepared:
  "sysInv s \<Longrightarrow> circuitPrepared s \<Longrightarrow>
     circuitPrepared (run sched s) \<and> compileCalls (run sched s) = compileCalls s"
proof (induction sched arbitrary: s)
  case Nil
  then show ?case by simp
next
  case (Cons i sched)
  show ?case
  proof (cases "task_step i s")
    case None
    with Cons show ?thesis by simp
  next
    case (Some s')
    from Cons.prems Some have 1: "sysInv s'" by (simp add: sysInv_step)
    from Cons.prems Some have 2: "circuitPrepared s' \<and> compileCalls s' = compileCalls s"
      by (simp add: step_after_prepared)
    from Cons.IH [OF 1] 2 Some show ?thesis by simp
  qed
qed

lemma inFlight_holder:
  assumes "sysInv s" and "i \<in> set (inFlight s)"
  shows "mutex s = Some i"
proof -
  from assms(2) have i: "i < length (tasks s)" and c: "compiling (fst (tasks s ! i))"
    by (simp_all add: inFlight_def)
  from c have "inCritical (fst (tasks s ! i))" by (cases "fst (tasks s ! i)") simp_all
  with assms(1) i show ?thesis by (simp add: sysInv_def)
qed

lemma length_le_1:
  assumes "distinct xs" and "\<forall>x\<in>set xs. x = a"
  shows "length xs \<le> 1"
proof -
  from assms(2) have "set xs \<subseteq> {a}" by blast
  then have "card (set xs) \<le> card {a}" by (intro card_mono) simp_all
  with assms(1) show ?thesis by (simp add: distinct_card)
qed

lemma inFlight_le_1:
  assumes "sysInv s"
  shows "length (inFlight s) \<le> 1"
proof (cases "mutex s")
  case None
  with inFlight_holder [OF assms] have "set (inFlight s) = {}" by fastforce
  then show ?thesis by simp
next
  case (Some h)
  with inFlight_holder [OF assms] have "\<forall>x\<in>set (inFlight s). x = h" by simp
  moreover have "distinct (inFlight s)" by (simp add: inFlight_def)
  ultimately show ?thesis by (rule length_le_1 [rotated])
qed

lemma compileCalls_bound:
  assumes "sysInv s"
  shows "compileCalls s \<le> failedCompiles s + 1"
proof -
  from assms have c: "compileCalls s =
       failedCompiles s + (if holderCompiling s then 1 else 0) + (if circuitPrepared s then 1 else 0)"
    and b: "\<forall>i<length (tasks s). passedCheck (fst (tasks s ! i)) \<longrightarrow> \<not> circuitPrepared s"
    and a: "\<forall>i<length (tasks s). inCritical (fst (tasks s ! i)) \<longleftrightarrow> mutex s = Some i"
    by (simp_all add: sysInv_def)
  show ?thesis
  proof (cases "holderCompiling s \<and> circuitPrepared s")
    case False
    with c show ?thesis by auto
  next
    case True
    then obtain h where h: "h < length (tasks s)" "compiling (fst (tasks s ! h))"
      by (auto simp add: holderCompiling_def split: option.splits)
    from h(2) have "passedCheck (fst (tasks s ! h))" by (cases "fst (tasks s ! h)") simp_all
    with b h(1) True show ?thesis by simp
  qed
qed


lemma task_step_flag:
  "task_step i s = Some s' \<Longrightarrow> circuitPrepared s \<Longrightarrow> circuitPrepared s'"
  by (auto simp add: task_step_def setPC_def logPrintln_def invoke_def Let_def
      split: if_splits prod.splits PC.splits option.splits sum.splits)

lemma run_flag: "circuitPrepared s \<Longrightarrow> circuitPrepared (run sched s)"
proof (induction sched arbitrary: s)
  case Nil
  then show ?case by simp
next
  case (Cons i sched)
  then show ?case
    by (cases "task_step i s") (simp_all add: task_step_flag)
qed

text \<open>
  A task that runs alone from a free mutex, through its six steps, does to the process
  state what \<open>prepareTask\<close> does.
\<close>

lemma run_alone:
  assumes m: "mutex s = None" and i: "i < length (tasks s)" and t: "tasks s ! i = (Waiting, env)"
  shows "run [i, i, i, i, i, i] s = (prepareTask env s)\<lparr>tasks := (tasks s)[i := (Finished, env)]\<rparr>"
proof (cases "circuitPrepared s")
  case True
  with m i t show ?thesis
    by (simp add: task_step_def setPC_def prepareTask_def logPrintln_def)
next
  case False
  show ?thesis
  proof (cases "NewBrevisApp env 11155111 ''https://sepolia.drpc.org'' ''./brevis-output''")
    case (Inl err)
    with False m i t show ?thesis
      by (simp add: task_step_def setPC_def prepareTask_def logPrintln_def invoke_def)
  next
    case (Inr app)
    with False m i t show ?thesis
      by (cases "Compile env \<lparr>EmissionsData = 10000\<rparr> ''./brevis-circuit'' ''./brevis-srs'' app")
         (simp_all add: task_step_def setPC_def prepareTask_def logPrintln_def invoke_def)
  qed
qed

text \<open>
  C7, as the code has it. In every state that N concurrent triggers can reach, by any
  interleaving: at most one compile call is in flight, and the task that made it holds
  the mutex; compile has been invoked at most once more than the number of compile
  attempts that failed (so at most once if none has failed); and once the flag is true,
  no further step of any task invokes compile or clears the flag.
\<close>

theorem compile_single_flight:
  "length (inFlight (run sched (start envs))) \<le> 1 \<and>
   (\<forall>i\<in>set (inFlight (run sched (start envs))). mutex (run sched (start envs)) = Some i) \<and>
   compileCalls (run sched (start envs)) \<le> failedCompiles (run sched (start envs)) + 1 \<and>
   (circuitPrepared (run sched (start envs)) \<longrightarrow>
      circuitPrepared (run (sched @ later) (start envs)) \<and>
      compileCalls (run (sched @ later) (start envs)) = compileCalls (run sched (start envs)))"
proof -
  let ?s = "run sched (start envs)"
  have inv: "sysInv ?s"
    using sysInv_start by (rule sysInv_run)
  have 1: "length (inFlight ?s) \<le> 1"
    using inv by (rule inFlight_le_1)
  have 2: "\<forall>i\<in>set (inFlight ?s). mutex ?s = Some i"
    using inv by (blast intro: inFlight_holder)
  have 3: "compileCalls ?s \<le> failedCompiles ?s + 1"
    using inv by (rule compileCalls_bound)
  have 4: "circuitPrepared ?s \<longrightarrow>
      circuitPrepared (run (sched @ later) (start envs)) \<and>
      compileCalls (run (sched @ later) (start envs)) = compileCalls ?s"
    using inv by (simp add: run_append run_after_prepared)
  from 1 2 3 4 show ?thesis by blast
qed

theorem compile_single_flight_witness:
  "circuitPrepared (run [0, 1, 0, 1, 0, 0, 0, 0] (start [envOK, envOK])) \<and>
   compileCalls (run [0, 1, 0, 1, 0, 0, 0, 0] (start [envOK, envOK])) = 1 \<and>
   compileCalls (run ([0, 1, 0, 1, 0, 0, 0, 0] @ [1, 1, 1, 1, 1, 1]) (start [envOK, envOK])) = 1"
proof -
  have a: "circuitPrepared (run [0, 1, 0, 1, 0, 0, 0, 0] (start [envOK, envOK])) \<and>
           compileCalls (run [0, 1, 0, 1, 0, 0, 0, 0] (start [envOK, envOK])) = 1"
    by (simp add: start_def task_step_def setPC_def logPrintln_def invoke_def compileCalls_def
        envOK_def Let_def)
  with compile_single_flight [of "[0, 1, 0, 1, 0, 0, 0, 0]" "[envOK, envOK]" "[1, 1, 1, 1, 1, 1]"]
  show ?thesis by simp
qed

text \<open>
  C7 as stated fails: with two concurrent triggers, the first compilation fails and the
  second task, which was waiting for the mutex, invokes compile again; compile has then
  been invoked twice and the flag is still false.
\<close>

theorem compile_twice_counterexample:
  "\<not> circuitPrepared (run [0, 0, 0, 0, 0, 0, 1, 1, 1, 1] (start [envCompileFails, envOK])) \<and>
   compileCalls (run [0, 0, 0, 0, 0, 0, 1, 1, 1, 1] (start [envCompileFails, envOK])) = 2"
  by (simp add: start_def task_step_def setPC_def logPrintln_def invoke_def compileCalls_def
      envCompileFails_def envOK_def Let_def)

section \<open>The preparation flag only ever goes from false to true\<close>

text \<open>
  C6. The flag is true after a task exactly when it was true before or the task's
  compilation succeeded. When a task has left the flag false (the app construction or
  the compilation failed), the next trigger tries again: it constructs the app and
  invokes compile, and sets the flag exactly when that compilation succeeds. A submission
  never changes the flag. Once the flag is true it stays true, through every sequence of
  requests and through every interleaving of concurrent tasks.
\<close>

theorem preparation_state_machine:
  "(circuitPrepared (prepareTask env s) \<longleftrightarrow>
      circuitPrepared s \<or>
      (\<exists>app. NewBrevisApp env 11155111 ''https://sepolia.drpc.org'' ''./brevis-output'' = Inr app \<and>
             Compile env \<lparr>EmissionsData = 10000\<rparr> ''./brevis-circuit'' ''./brevis-srs'' app = None)) \<and>
   (\<not> circuitPrepared s \<and> \<not> circuitPrepared (prepareTask env s) \<and>
    NewBrevisApp env2 11155111 ''https://sepolia.drpc.org'' ''./brevis-output'' = Inr app2 \<longrightarrow>
      calls (prepareTask env2 (prepareTask env s)) =
        calls (prepareTask env s) @
          [CallNewBrevisApp 11155111 ''https://sepolia.drpc.org'' ''./brevis-output'',
           CallCompile \<lparr>EmissionsData = 10000\<rparr> ''./brevis-circuit'' ''./brevis-srs'' app2] \<and>
      (circuitPrepared (prepareTask env2 (prepareTask env s)) \<longleftrightarrow>
         Compile env2 \<lparr>EmissionsData = 10000\<rparr> ''./brevis-circuit'' ''./brevis-srs'' app2 = None)) \<and>
   circuitPrepared (snd (handleSubmitProof env s)) = circuitPrepared s \<and>
   (circuitPrepared s \<longrightarrow> circuitPrepared (serveAll rs s)) \<and>
   (circuitPrepared sys \<longrightarrow> circuitPrepared (run sched sys))"
proof (intro conjI impI)
  show "circuitPrepared (prepareTask env s) \<longleftrightarrow>
      circuitPrepared s \<or>
      (\<exists>app. NewBrevisApp env 11155111 ''https://sepolia.drpc.org'' ''./brevis-output'' = Inr app \<and>
             Compile env \<lparr>EmissionsData = 10000\<rparr> ''./brevis-circuit'' ''./brevis-srs'' app = None)"
    by (rule prepareTask_flag)
next
  assume h: "\<not> circuitPrepared s \<and> \<not> circuitPrepared (prepareTask env s) \<and>
    NewBrevisApp env2 11155111 ''https://sepolia.drpc.org'' ''./brevis-output'' = Inr app2"
  then show "calls (prepareTask env2 (prepareTask env s)) =
        calls (prepareTask env s) @
          [CallNewBrevisApp 11155111 ''https://sepolia.drpc.org'' ''./brevis-output'',
           CallCompile \<lparr>EmissionsData = 10000\<rparr> ''./brevis-circuit'' ''./brevis-srs'' app2]"
    by (cases "Compile env2 \<lparr>EmissionsData = 10000\<rparr> ''./brevis-circuit'' ''./brevis-srs'' app2")
       (simp_all add: prepareTask_compile_fails prepareTask_succeeds)
  from h show "circuitPrepared (prepareTask env2 (prepareTask env s)) \<longleftrightarrow>
         Compile env2 \<lparr>EmissionsData = 10000\<rparr> ''./brevis-circuit'' ''./brevis-srs'' app2 = None"
    by (simp add: prepareTask_flag [of env2])
next
  show "circuitPrepared (snd (handleSubmitProof env s)) = circuitPrepared s"
    by (rule handleSubmitProof_flag)
next
  assume "circuitPrepared s"
  then show "circuitPrepared (serveAll rs s)" by (rule serveAll_flag)
next
  assume "circuitPrepared sys"
  then show "circuitPrepared (run sched sys)" by (rule run_flag)
qed

theorem preparation_state_machine_witness:
  "\<not> circuitPrepared (prepareTask envCompileFails server0) \<and>
   circuitPrepared (prepareTask envOK (prepareTask envCompileFails server0)) \<and>
   circuitPrepared (serveAll [Trigger envCompileFails, Submit envOK, Trigger envInitFails] serverPrepared)"
proof -
  have 0: "\<not> circuitPrepared server0" "circuitPrepared serverPrepared"
    by (simp_all add: server0_def serverPrepared_def)
  have 1: "NewBrevisApp envCompileFails 11155111 ''https://sepolia.drpc.org'' ''./brevis-output'' = Inr ()"
    "Compile envCompileFails \<lparr>EmissionsData = 10000\<rparr> ''./brevis-circuit'' ''./brevis-srs'' () = Some ''no srs''"
    by (simp_all add: envCompileFails_def envOK_def)
  have 2: "NewBrevisApp envOK 11155111 ''https://sepolia.drpc.org'' ''./brevis-output'' = Inr ()"
    "Compile envOK \<lparr>EmissionsData = 10000\<rparr> ''./brevis-circuit'' ''./brevis-srs'' () = None"
    by (simp_all add: envOK_def)
  note t = preparation_state_machine [of envCompileFails server0 envOK "()" "[]" "start []" "[]"]
  from t 0 1 have a: "\<not> circuitPrepared (prepareTask envCompileFails server0)"
    by simp
  with t 0 2 have b: "circuitPrepared (prepareTask envOK (prepareTask envCompileFails server0))"
    by simp
  from preparation_state_machine [of envOK serverPrepared envOK "()"
      "[Trigger envCompileFails, Submit envOK, Trigger envInitFails]" "start []" "[]"] 0
  have c: "circuitPrepared (serveAll [Trigger envCompileFails, Submit envOK, Trigger envInitFails] serverPrepared)"
    by blast
  from a b c show ?thesis by blast
qed

end
